theory Spec2Isabelle
  imports Main "HOL-Library.Multiset"
begin

section \<open>Data model\<close>

text \<open>
  The game state of \<^verbatim>\<open>src/assets/app.js\<close> (second, current script of the file):
  \<^verbatim>\<open>holes: [ { partnerId|null, loneWolf:boolean, result:'WOLF'|'OTHER'|'TIE', blind:boolean } ]\<close>.
  A \<^verbatim>\<open>null\<close> or missing property is \<open>None\<close>. The fields have the types the script
  documents: a result is one of the three strings, the flags are booleans, an identifier
  is a string, the hole count a natural number. \<^verbatim>\<open>playerCount\<close>, \<^verbatim>\<open>currentHoleIndex\<close>
  and the time stamps are not read by the functions below.
\<close>

datatype outcome = WOLF | OTHER | TIE

record hole_record =
  partnerId :: "string option"
  loneWolf :: bool
  result :: "outcome option"
  blind :: bool

record player =
  player_id :: string
  name :: string

record game_options =
  pushTies :: bool
  blindWolf :: bool

record game =
  players :: "player list"
  holeCount :: nat
  options :: game_options
  holes :: "hole_record list"

text \<open>
  JavaScript numbers held in the result objects. All amounts the engine adds are
  integers, far below \<open>2^53\<close> for any scorecard, where doubles are exact; \<open>NaN\<close> arises
  from \<^verbatim>\<open>undefined + x\<close>, when a property that was never initialised is incremented.
\<close>

datatype jsnum = Num int | NaN

record hole_entry =
  hole :: nat
  status :: string
  statusLabel :: string
  deltaByPlayer :: "string \<rightharpoonup> int"

record tallies =
  totals :: "string \<rightharpoonup> jsnum"
  won :: "string \<rightharpoonup> jsnum"
  lost :: "string \<rightharpoonup> jsnum"
  perHole :: "hole_entry list"

text \<open>The loop of \<^verbatim>\<open>computeScores\<close> also carries \<^verbatim>\<open>carryPerPlayer\<close>.\<close>

record loop_state = tallies +
  carryPerPlayer :: nat

text \<open>The returned object adds \<^verbatim>\<open>holesScoredCount\<close>.\<close>

record score_summary = tallies +
  holesScoredCount :: nat

section \<open>Rotation\<close>

text \<open>
  \<^verbatim>\<open>rotatedOrderForHole(holeIndex)\<close>, with the global \<^verbatim>\<open>game.players\<close> it reads as a
  parameter. \<^verbatim>\<open>base.slice(cut)\<close> is \<open>drop cut\<close>, \<^verbatim>\<open>base.slice(0, cut)\<close> is \<open>take cut\<close>.
  For an empty roster JavaScript computes \<^verbatim>\<open>cut = NaN\<close> and both slices of the empty
  array are empty; here \<open>cut = 0\<close> and the result is empty as well.
\<close>

definition rotatedOrderForHole :: "player list \<Rightarrow> nat \<Rightarrow> string list" where
  "rotatedOrderForHole ps holeIndex =
     (let n = length ps;
          offset = holeIndex mod n;
          base = map player_id ps;
          cut = (n - offset) mod n
      in drop cut base @ take cut base)"

section \<open>Scoring engine (all-pairs transfers)\<close>

definition POINTS_UNIT :: int where
  "POINTS_UNIT = 1"

text \<open>\<^verbatim>\<open>Object.fromEntries(playerIds.map(pid => [pid, 0]))\<close>\<close>

definition zero_deltas :: "string list \<Rightarrow> (string \<rightharpoonup> int)" where
  "zero_deltas playerIds = map_of (map (\<lambda>pid. (pid, 0)) playerIds)"

definition zero_totals :: "string list \<Rightarrow> (string \<rightharpoonup> jsnum)" where
  "zero_totals playerIds = map_of (map (\<lambda>pid. (pid, Num 0)) playerIds)"

text \<open>\<^verbatim>\<open>obj[pid] += d\<close>: a missing property reads \<^verbatim>\<open>undefined\<close>, and the sum is \<^verbatim>\<open>NaN\<close>.\<close>

fun js_plus :: "jsnum option \<Rightarrow> int \<Rightarrow> jsnum" where
  "js_plus (Some (Num v)) d = Num (v + d)"
| "js_plus _ d = NaN"

definition js_add_at :: "(string \<rightharpoonup> jsnum) \<Rightarrow> string \<Rightarrow> int \<Rightarrow> (string \<rightharpoonup> jsnum)" where
  "js_add_at m pid d = m(pid \<mapsto> js_plus (m pid) d)"

text \<open>
  The closure \<^verbatim>\<open>applyDelta(deltaByPlayer, pid, deltaUnits)\<close>; the objects it mutates are
  passed and returned.
\<close>

definition applyDelta ::
  "string \<Rightarrow> int \<Rightarrow> (string \<rightharpoonup> int) \<times> loop_state \<Rightarrow> (string \<rightharpoonup> int) \<times> loop_state" where
  "applyDelta pid deltaUnits acc =
     (let deltaByPlayer = fst acc; st = snd acc
      in if deltaUnits = 0 then acc
         else (deltaByPlayer(pid \<mapsto> (case deltaByPlayer pid of Some v \<Rightarrow> v | None \<Rightarrow> 0) + deltaUnits),
               st\<lparr>totals := js_add_at (totals st) pid deltaUnits,
                  won := (if deltaUnits > 0 then js_add_at (won st) pid deltaUnits else won st),
                  lost := (if deltaUnits < 0 then js_add_at (lost st) pid \<bar>deltaUnits\<bar> else lost st)\<rparr>))"

text \<open>\<^verbatim>\<open>g.holes[i] ?? {}\<close>: every property of the empty object is \<^verbatim>\<open>undefined\<close>.\<close>

definition empty_hole :: hole_record where
  "empty_hole = \<lparr>partnerId = None, loneWolf = False, result = None, blind = False\<rparr>"

definition hole_at :: "hole_record list \<Rightarrow> nat \<Rightarrow> hole_record" where
  "hole_at hs i = (if i < length hs then hs ! i else empty_hole)"

text \<open>The order closure inside the loop repeats the body of \<^verbatim>\<open>rotatedOrderForHole\<close>.\<close>

definition hole_order :: "game \<Rightarrow> nat \<Rightarrow> string list" where
  "hole_order g i =
     (let n = length (players g);
          offset = i mod n;
          base = map player_id (players g);
          cut = (n - offset) mod n
      in drop cut base @ take cut base)"

text \<open>
  \<^verbatim>\<open>order[order.length - 1]\<close> is \<^verbatim>\<open>undefined\<close> (\<open>None\<close>) for an empty order;
  used as a property key, \<^verbatim>\<open>undefined\<close> becomes the string of that name.
\<close>

definition wolfId_of :: "string list \<Rightarrow> string option" where
  "wolfId_of order = (if order = [] then None else Some (last order))"

definition key_of :: "string option \<Rightarrow> string" where
  "key_of v = (case v of None \<Rightarrow> ''undefined'' | Some s \<Rightarrow> s)"

definition isBlind :: "game_options \<Rightarrow> hole_record \<Rightarrow> bool" where
  "isBlind opts h = (blindWolf opts \<and> blind h)"

definition baseWagerPerPlayer :: "game_options \<Rightarrow> hole_record \<Rightarrow> nat" where
  "baseWagerPerPlayer opts h = 1 + (if isBlind opts h then 1 else 0)"

definition wagerPerPlayer :: "game_options \<Rightarrow> nat \<Rightarrow> hole_record \<Rightarrow> nat" where
  "wagerPerPlayer opts carry h = (if pushTies opts then carry else 0) + baseWagerPerPlayer opts h"

text \<open>
  The winners, the losers and the label of a won hole (\<^verbatim>\<open>if (isLone) ... else ...\<close>);
  \<open>None\<close> is the branch that pushes \<^verbatim>\<open>NOT_SCORED\<close> for a missing partner or the Wolf
  as its own partner. \<^verbatim>\<open>!partnerId\<close> holds for \<^verbatim>\<open>null\<close> and for the empty string.
\<close>

definition sides :: "string list \<Rightarrow> hole_record \<Rightarrow> (string list \<times> string list \<times> string) option" where
  "sides order h =
     (let wolfId = wolfId_of order;
          others = butlast order
      in if loneWolf h then
           (let wolfWon = (result h = Some WOLF)
            in Some (if wolfWon then [key_of wolfId] else others,
                     if wolfWon then others else [key_of wolfId],
                     if wolfWon then ''Lone Wolf wins'' else ''Little Piggie win''))
         else
           (case partnerId h of
              None \<Rightarrow> None
            | Some p \<Rightarrow>
                if p = [] \<or> Some p = wolfId then None
                else
                  (let wolfTeam = [wolfId, Some p];
                       otherTeam = filter (\<lambda>pid. Some pid \<notin> set wolfTeam) order;
                       wolfTeamWon = (result h = Some WOLF)
                   in Some (if wolfTeamWon then map key_of wolfTeam else otherTeam,
                            if wolfTeamWon then otherTeam else map key_of wolfTeam,
                            if wolfTeamWon then ''Wolf Pack wins'' else ''Little Piggies win''))))"

definition push_entry :: "hole_entry \<Rightarrow> loop_state \<Rightarrow> loop_state" where
  "push_entry e st = st\<lparr>perHole := perHole st @ [e]\<rparr>"

definition not_scored_entry :: "nat \<Rightarrow> string list \<Rightarrow> hole_entry" where
  "not_scored_entry i playerIds =
     \<lparr>hole = i + 1, status = ''NOT_SCORED'', statusLabel = ''Not scored'',
      deltaByPlayer = zero_deltas playerIds\<rparr>"

definition tie_entry :: "nat \<Rightarrow> string list \<Rightarrow> hole_entry" where
  "tie_entry i playerIds =
     \<lparr>hole = i + 1, status = ''TIE'', statusLabel = ''Tie'',
      deltaByPlayer = zero_deltas playerIds\<rparr>"

text \<open>
  The two \<^verbatim>\<open>forEach\<close> loops over winners and losers, starting from the all-zero
  \<^verbatim>\<open>deltaByPlayer\<close> of the hole.
\<close>

definition settle ::
  "int \<Rightarrow> string list \<Rightarrow> string list \<Rightarrow> (string \<rightharpoonup> int) \<times> loop_state \<Rightarrow> (string \<rightharpoonup> int) \<times> loop_state" where
  "settle wagerUnits winners losers acc =
     (let winnerCount = int (length winners);
          loserCount = int (length losers)
      in fold (\<lambda>pid. applyDelta pid (- wagerUnits * winnerCount)) losers
           (fold (\<lambda>pid. applyDelta pid (wagerUnits * loserCount)) winners acc))"

text \<open>One iteration of \<^verbatim>\<open>for (let i = 0; i < g.holeCount; i++)\<close>.\<close>

definition hole_step :: "game \<Rightarrow> nat \<Rightarrow> loop_state \<Rightarrow> loop_state" where
  "hole_step g i st =
     (let playerIds = map player_id (players g);
          h = hole_at (holes g) i;
          order = hole_order g i
      in if result h = None then push_entry (not_scored_entry i playerIds) st
         else if result h = Some TIE then
           push_entry (tie_entry i playerIds)
             (if pushTies (options g) then st\<lparr>carryPerPlayer := carryPerPlayer st + 1\<rparr> else st)
         else
           (let wagerUnits = int (wagerPerPlayer (options g) (carryPerPlayer st) h) * POINTS_UNIT;
                st1 = (if pushTies (options g) then st\<lparr>carryPerPlayer := 0\<rparr> else st)
            in case sides order h of
                 None \<Rightarrow> push_entry (not_scored_entry i playerIds) st1
               | Some (winners, losers, label) \<Rightarrow>
                   (let acc = settle wagerUnits winners losers (zero_deltas playerIds, st1)
                    in push_entry
                         \<lparr>hole = i + 1,
                          status = (if result h = Some WOLF then ''WOLF_WIN'' else ''OTHER_WIN''),
                          statusLabel = label,
                          deltaByPlayer = fst acc\<rparr>
                         (snd acc))))"

definition init_state :: "game \<Rightarrow> loop_state" where
  "init_state g =
     (let playerIds = map player_id (players g)
      in \<lparr>totals = zero_totals playerIds, won = zero_totals playerIds,
          lost = zero_totals playerIds, perHole = [], carryPerPlayer = 0\<rparr>)"

text \<open>The state after the first \<open>k\<close> iterations of the loop.\<close>

definition run :: "game \<Rightarrow> nat \<Rightarrow> loop_state" where
  "run g k = fold (hole_step g) [0..<k] (init_state g)"

definition computeScores :: "game \<Rightarrow> score_summary" where
  "computeScores g =
     (let st = run g (holeCount g)
      in \<lparr>totals = totals st, won = won st, lost = lost st, perHole = perHole st,
          holesScoredCount = length (filter (\<lambda>h. status h \<noteq> ''NOT_SCORED'') (perHole st))\<rparr>)"

section \<open>The earlier scoring engine (pooled pot)\<close>

text \<open>
  The first script of \<^verbatim>\<open>src/assets/app.js\<close>: points are stored in sixths, the losers'
  stakes form a pot that the winners split, the remainder of the integer division going
  to the first winner.
\<close>

definition POINTS_UNIT_v1 :: int where
  "POINTS_UNIT_v1 = 6"

record hole_entry_v1 =
  hole_v1 :: nat
  mult :: nat
  pushCount_v1 :: nat
  desc :: string

record loop_state_v1 =
  totals_v1 :: "string \<rightharpoonup> jsnum"
  perHole_v1 :: "hole_entry_v1 list"
  pushCount :: nat

text \<open>A number inside a template literal: its decimal digits.\<close>

fun show_nat :: "nat \<Rightarrow> string" where
  "show_nat n =
     (if n < 10 then [''0123456789'' ! n]
      else show_nat (n div 10) @ [''0123456789'' ! (n mod 10)])"

definition push_entry_v1 :: "hole_entry_v1 \<Rightarrow> loop_state_v1 \<Rightarrow> loop_state_v1" where
  "push_entry_v1 e st = st\<lparr>perHole_v1 := perHole_v1 st @ [e]\<rparr>"

text \<open>
  \<^verbatim>\<open>winners.forEach((pid, idx) => ...)\<close> is a fold over the winners paired with their
  indices. \<^verbatim>\<open>Math.floor(potUnits / winners.length)\<close> is \<open>div\<close> on these non-negative
  integers; with no winners JavaScript computes \<^verbatim>\<open>Infinity\<close> or \<^verbatim>\<open>NaN\<close>, HOL
  computes 0, and neither value is used, since the loop over the winners is empty.
\<close>

definition hole_step_v1 :: "game \<Rightarrow> nat \<Rightarrow> loop_state_v1 \<Rightarrow> loop_state_v1" where
  "hole_step_v1 g i st =
     (let h = hole_at (holes g) i;
          order = hole_order g i;
          wolfId = wolfId_of order;
          others = butlast order;
          baseMult = (if pushTies (options g) then pushCount st + 1 else 1);
          blindMult = (if blindWolf (options g) \<and> blind h then 2 else 1);
          mult = baseMult * blindMult;
          multUnits = int mult * POINTS_UNIT_v1
      in if result h = None then
           push_entry_v1 \<lparr>hole_v1 = i + 1, mult = mult, pushCount_v1 = pushCount st,
                          desc = ''Not scored''\<rparr> st
         else if result h = Some TIE then
           (let st1 = push_entry_v1 \<lparr>hole_v1 = i + 1, mult = mult, pushCount_v1 = pushCount st,
                                     desc = ''Tie''\<rparr> st
            in if pushTies (options g) then st1\<lparr>pushCount := pushCount st1 + 1\<rparr> else st1)
         else
           (let st1 = (if pushTies (options g) then st\<lparr>pushCount := 0\<rparr> else st)
            in if loneWolf h then
                 (let k = length others;
                      swingUnits = int k * 1 * multUnits
                  in if result h = Some WOLF then
                       push_entry_v1 \<lparr>hole_v1 = i + 1, mult = mult, pushCount_v1 = 0,
                                      desc = ''Lone Wolf win (+'' @ show_nat k @ '' each)''\<rparr>
                         (st1\<lparr>totals_v1 :=
                                fold (\<lambda>pid m. js_add_at m pid (- (1 * multUnits))) others
                                  (js_add_at (totals_v1 st1) (key_of wolfId) swingUnits)\<rparr>)
                     else
                       push_entry_v1 \<lparr>hole_v1 = i + 1, mult = mult, pushCount_v1 = 0,
                                      desc = ''Lone Wolf loss (-'' @ show_nat k @ '' each)''\<rparr>
                         (st1\<lparr>totals_v1 :=
                                fold (\<lambda>pid m. js_add_at m pid (1 * multUnits)) others
                                  (js_add_at (totals_v1 st1) (key_of wolfId) (- swingUnits))\<rparr>))
               else
                 (case partnerId h of
                    None \<Rightarrow>
                      push_entry_v1 \<lparr>hole_v1 = i + 1, mult = mult, pushCount_v1 = 0,
                                     desc = ''Invalid partner (not scored)''\<rparr> st1
                  | Some p \<Rightarrow>
                      if p = [] \<or> Some p = wolfId then
                        push_entry_v1 \<lparr>hole_v1 = i + 1, mult = mult, pushCount_v1 = 0,
                                       desc = ''Invalid partner (not scored)''\<rparr> st1
                      else
                        (let wolfTeam = [wolfId, Some p];
                             otherTeam = filter (\<lambda>pid. Some pid \<notin> set wolfTeam) order;
                             winners = (if result h = Some WOLF then map key_of wolfTeam else otherTeam);
                             losers = (if result h = Some WOLF then otherTeam else map key_of wolfTeam);
                             potUnits = int (length losers) * 1 * multUnits;
                             shareUnits = potUnits div int (length winners);
                             remainder = potUnits - shareUnits * int (length winners);
                             t1 = fold (\<lambda>pid m. js_add_at m pid (- (1 * multUnits))) losers (totals_v1 st1);
                             t2 = fold (\<lambda>(pid, idx) m.
                                          js_add_at m pid (shareUnits + (if idx = 0 then remainder else 0)))
                                    (zip winners [0..<length winners]) t1;
                             winLabel = (if result h = Some WOLF then ''Wolf Team win'' else ''Other Team win'')
                         in push_entry_v1
                              \<lparr>hole_v1 = i + 1, mult = mult, pushCount_v1 = 0,
                               desc = winLabel @ '' (pot '' @ show_nat (length losers) @ '')''\<rparr>
                              (st1\<lparr>totals_v1 := t2\<rparr>)))))"

definition init_state_v1 :: "game \<Rightarrow> loop_state_v1" where
  "init_state_v1 g =
     \<lparr>totals_v1 = zero_totals (map player_id (players g)), perHole_v1 = [], pushCount = 0\<rparr>"

definition run_v1 :: "game \<Rightarrow> nat \<Rightarrow> loop_state_v1" where
  "run_v1 g k = fold (hole_step_v1 g) [0..<k] (init_state_v1 g)"

text \<open>The earlier \<^verbatim>\<open>computeScores\<close> returns \<^verbatim>\<open>{ totals, perHole }\<close>.\<close>

definition computeScores_v1 :: "game \<Rightarrow> (string \<rightharpoonup> jsnum) \<times> hole_entry_v1 list" where
  "computeScores_v1 g = (let st = run_v1 g (holeCount g) in (totals_v1 st, perHole_v1 st))"

section \<open>Notions used in the statements\<close>

text \<open>
  The rotation as the specification words it: a right rotation by \<open>k\<close> positions, each
  step moving the last element to the front.
\<close>

definition right_rotate1 :: "'a list \<Rightarrow> 'a list" where
  "right_rotate1 xs = (if xs = [] then [] else last xs # butlast xs)"

definition right_rotate :: "nat \<Rightarrow> 'a list \<Rightarrow> 'a list" where
  "right_rotate k xs = (right_rotate1 ^^ k) xs"

text \<open>Reading a delta as the scoreboard does, \<^verbatim>\<open>deltaByPlayer[pid] ?? 0\<close>.\<close>

definition or_zero :: "int option \<Rightarrow> int" where
  "or_zero v = (case v of Some x \<Rightarrow> x | None \<Rightarrow> 0)"

definition delta_of :: "hole_entry \<Rightarrow> string \<Rightarrow> int" where
  "delta_of e pid = or_zero (deltaByPlayer e pid)"

text \<open>
  What a won hole with the given winners and losers transfers to player \<open>p\<close>: each
  loser pays the wager to each winner.
\<close>

definition share :: "int \<Rightarrow> string list \<Rightarrow> string list \<Rightarrow> string \<Rightarrow> int" where
  "share wu ws ls p =
     (if p \<in> set ws then wu * int (length ls)
      else if p \<in> set ls then - (wu * int (length ws)) else 0)"

text \<open>The breakdown entry that iteration \<open>i\<close> pushes.\<close>

definition pushed :: "game \<Rightarrow> nat \<Rightarrow> loop_state \<Rightarrow> hole_entry" where
  "pushed g i st = last (perHole (hole_step g i st))"

text \<open>The per-player wager in force at hole \<open>i\<close>, as the iteration computes it.\<close>

definition wager_at :: "game \<Rightarrow> nat \<Rightarrow> nat" where
  "wager_at g i = wagerPerPlayer (options g) (carryPerPlayer (run g i)) (hole_at (holes g) i)"

text \<open>
  The sum of the properties of an object over a list of keys, as JavaScript adds them: a
  missing property or a \<open>NaN\<close> makes the sum \<open>NaN\<close>.
\<close>

fun js_sum :: "jsnum option list \<Rightarrow> jsnum" where
  "js_sum [] = Num 0"
| "js_sum (x # xs) = (case (x, js_sum xs) of (Some (Num a), Num b) \<Rightarrow> Num (a + b) | _ \<Rightarrow> NaN)"

section \<open>Concrete games\<close>

definition abcd :: "player list" where
  "abcd = [\<lparr>player_id = ''A'', name = ''Ann''\<rparr>, \<lparr>player_id = ''B'', name = ''Bob''\<rparr>,
           \<lparr>player_id = ''C'', name = ''Cy''\<rparr>, \<lparr>player_id = ''D'', name = ''Di''\<rparr>]"

text \<open>One hole, the Wolf \<open>D\<close> alone against the field, and the field wins.\<close>

definition lone_loss_game :: game where
  "lone_loss_game =
     \<lparr>players = abcd, holeCount = 1, options = \<lparr>pushTies = False, blindWolf = False\<rparr>,
      holes = [\<lparr>partnerId = None, loneWolf = True, result = Some OTHER, blind = False\<rparr>]\<rparr>"

text \<open>Two ties, the second flagged blind, then the Wolf \<open>B\<close> wins alone; ties are pushed.\<close>

definition tie_tie_win_game :: game where
  "tie_tie_win_game =
     \<lparr>players = abcd, holeCount = 3, options = \<lparr>pushTies = True, blindWolf = False\<rparr>,
      holes = [\<lparr>partnerId = None, loneWolf = False, result = Some TIE, blind = False\<rparr>,
               \<lparr>partnerId = None, loneWolf = True, result = Some TIE, blind = True\<rparr>,
               \<lparr>partnerId = None, loneWolf = True, result = Some WOLF, blind = False\<rparr>]\<rparr>"

text \<open>A tie, a hole without a result, then a won team hole without a partner.\<close>

definition gap_game :: game where
  "gap_game =
     \<lparr>players = abcd, holeCount = 3, options = \<lparr>pushTies = True, blindWolf = False\<rparr>,
      holes = [\<lparr>partnerId = None, loneWolf = False, result = Some TIE, blind = False\<rparr>,
               \<lparr>partnerId = Some ''A'', loneWolf = False, result = None, blind = False\<rparr>,
               \<lparr>partnerId = None, loneWolf = False, result = Some WOLF, blind = False\<rparr>]\<rparr>"

text \<open>One team hole: the Wolf \<open>D\<close> with partner \<open>A\<close> wins against \<open>B\<close> and \<open>C\<close>.\<close>

definition team_win_game :: game where
  "team_win_game =
     \<lparr>players = abcd, holeCount = 1, options = \<lparr>pushTies = False, blindWolf = False\<rparr>,
      holes = [\<lparr>partnerId = Some ''A'', loneWolf = False, result = Some WOLF, blind = False\<rparr>]\<rparr>"

text \<open>A pushed tie, then a won team hole without a partner, then \<open>B\<close> wins alone.\<close>

definition lost_carry_game :: game where
  "lost_carry_game =
     \<lparr>players = abcd, holeCount = 3, options = \<lparr>pushTies = True, blindWolf = False\<rparr>,
      holes = [\<lparr>partnerId = None, loneWolf = False, result = Some TIE, blind = False\<rparr>,
               \<lparr>partnerId = None, loneWolf = False, result = Some WOLF, blind = False\<rparr>,
               \<lparr>partnerId = None, loneWolf = True, result = Some WOLF, blind = False\<rparr>]\<rparr>"

text \<open>
  One hole flagged blind but not Lone Wolf, with partner \<open>A\<close>, won by the Wolf's side; and
  the same hole as solo play without a partner.
\<close>

definition blind_team_game :: game where
  "blind_team_game =
     \<lparr>players = abcd, holeCount = 1, options = \<lparr>pushTies = False, blindWolf = True\<rparr>,
      holes = [\<lparr>partnerId = Some ''A'', loneWolf = False, result = Some WOLF, blind = True\<rparr>]\<rparr>"

definition blind_solo_game :: game where
  "blind_solo_game =
     \<lparr>players = abcd, holeCount = 1, options = \<lparr>pushTies = False, blindWolf = True\<rparr>,
      holes = [\<lparr>partnerId = None, loneWolf = True, result = Some WOLF, blind = True\<rparr>]\<rparr>"

section \<open>The rotation\<close>

lemma rotated_as_rotate:
  "rotatedOrderForHole ps i = rotate (length ps - i mod length ps) (map player_id ps)"
  by (simp add: rotatedOrderForHole_def rotate_drop_take Let_def)

lemma length_rotated [simp]: "length (rotatedOrderForHole ps i) = length ps"
  by (simp add: rotated_as_rotate)

lemma set_rotated [simp]: "set (rotatedOrderForHole ps i) = set (map player_id ps)"
  by (simp only: rotated_as_rotate set_rotate)

lemma distinct_rotated [simp]: "distinct (rotatedOrderForHole ps i) = distinct (map player_id ps)"
  by (simp only: rotated_as_rotate distinct_rotate)

lemma mset_rotated: "mset (rotatedOrderForHole ps i) = mset (map player_id ps)"
proof -
  have "mset (rotatedOrderForHole ps i) =
        mset (take ((length ps - i mod length ps) mod length ps) (map player_id ps)) +
        mset (drop ((length ps - i mod length ps) mod length ps) (map player_id ps))"
    by (simp add: rotatedOrderForHole_def Let_def)
  also have "\<dots> = mset (map player_id ps)"
    by (simp only: mset_append [symmetric] append_take_drop_id)
  finally show ?thesis .
qed

lemma rotated_period: "rotatedOrderForHole ps (i + length ps) = rotatedOrderForHole ps i"
  by (simp add: rotatedOrderForHole_def)

lemma right_rotate1_rotate1: "right_rotate1 (rotate1 xs) = xs"
  by (cases xs) (simp_all add: right_rotate1_def)

lemma right_rotate_as_rotate:
  "k \<le> length xs \<Longrightarrow> right_rotate k xs = rotate (length xs - k) xs"
proof (induction k)
  case 0
  then show ?case by (simp add: right_rotate_def)
next
  case (Suc k)
  then have "length xs - k = Suc (length xs - Suc k)" by simp
  then have "rotate (length xs - k) xs = rotate1 (rotate (length xs - Suc k) xs)"
    by simp
  then have "right_rotate1 (rotate (length xs - k) xs) = rotate (length xs - Suc k) xs"
    by (simp only: right_rotate1_rotate1)
  moreover have "right_rotate (Suc k) xs = right_rotate1 (right_rotate k xs)"
    by (simp add: right_rotate_def)
  ultimately show ?case using Suc by simp
qed

lemma rotated_right_rotate:
  assumes "ps \<noteq> []"
  shows "rotatedOrderForHole ps i = right_rotate (i mod length ps) (map player_id ps)"
proof -
  have "i mod length ps \<le> length (map player_id ps)"
    using assms by (simp add: less_imp_le)
  then show ?thesis
    by (simp add: right_rotate_as_rotate rotated_as_rotate)
qed

lemma last_rotated:
  assumes "ps \<noteq> []"
  shows "last (rotatedOrderForHole ps i) = map player_id ps ! (length ps - 1 - i mod length ps)"
proof -
  let ?n = "length ps" and ?b = "map player_id ps"
  have n: "0 < ?n" using assms by simp
  then have off: "i mod ?n < ?n" by simp
  show ?thesis
  proof (cases "i mod ?n = 0")
    case True
    then show ?thesis using assms
      by (simp add: rotatedOrderForHole_def last_conv_nth)
  next
    case False
    then have cut: "(?n - i mod ?n) mod ?n = ?n - i mod ?n" "0 < ?n - i mod ?n" "?n - i mod ?n < ?n"
      using off by simp_all
    have "?n - i mod ?n \<noteq> 0" using off by linarith
    then have ne: "take (?n - i mod ?n) ?b \<noteq> []" using assms by (simp only: take_eq_Nil map_is_Nil_conv) simp
    have "rotatedOrderForHole ps i = drop (?n - i mod ?n) ?b @ take (?n - i mod ?n) ?b"
      by (simp only: rotatedOrderForHole_def Let_def cut(1))
    then have "last (rotatedOrderForHole ps i) = last (take (?n - i mod ?n) ?b)"
      using last_appendR [OF ne] by simp
    also have "\<dots> = take (?n - i mod ?n) ?b ! (?n - i mod ?n - 1)"
      using ne cut by (simp add: last_conv_nth min_absorb2)
    also have "\<dots> = ?b ! (?n - i mod ?n - 1)"
      using cut by simp
    finally show ?thesis by (simp add: diff_commute)
  qed
qed

lemma wolf_inj:
  assumes "distinct (map player_id ps)" "ps \<noteq> []"
  shows "inj_on (\<lambda>j. last (rotatedOrderForHole ps j)) {i..<i + length ps}"
proof (rule inj_onI)
  fix j k
  let ?n = "length ps"
  assume j: "j \<in> {i..<i + ?n}" and k: "k \<in> {i..<i + ?n}"
    and eq: "last (rotatedOrderForHole ps j) = last (rotatedOrderForHole ps k)"
  have n: "0 < ?n" using assms by simp
  have "map player_id ps ! (?n - 1 - j mod ?n) = map player_id ps ! (?n - 1 - k mod ?n)"
    using eq by (simp add: last_rotated [OF assms(2)])
  moreover have "?n - 1 - j mod ?n < length (map player_id ps)" "?n - 1 - k mod ?n < length (map player_id ps)"
    using n by simp_all
  ultimately have "?n - 1 - j mod ?n = ?n - 1 - k mod ?n"
    using assms(1) nth_eq_iff_index_eq by blast
  moreover have "j mod ?n < ?n" "k mod ?n < ?n" using n by simp_all
  ultimately have m: "j mod ?n = k mod ?n" by linarith
  show "j = k"
  proof (rule ccontr)
    assume ne: "j \<noteq> k"
    have "\<And>a b. a < b \<Longrightarrow> b < a + ?n \<Longrightarrow> a mod ?n = b mod ?n \<Longrightarrow> False"
    proof -
      fix a b :: nat
      assume ab: "a < b" "b < a + ?n" "a mod ?n = b mod ?n"
      then have "(b - a) mod ?n = 0"
        by (metis less_imp_le mod_eq_dvd_iff_nat dvd_imp_mod_0)
      moreover have "0 < b - a" "b - a < ?n" using ab by simp_all
      ultimately show False by simp
    qed
    from this[of j k] this[of k j] ne j k m show False
      by (cases "j < k") auto
  qed
qed

section \<open>The loop and its steps\<close>

lemma run_0: "run g 0 = init_state g"
  by (simp add: run_def)

lemma run_Suc: "run g (Suc k) = hole_step g k (run g k)"
  by (simp add: run_def)

lemma hole_order_eq: "hole_order g i = rotatedOrderForHole (players g) i"
  by (simp add: hole_order_def rotatedOrderForHole_def)

lemma hole_step_unscored:
  "result (hole_at (holes g) i) = None \<Longrightarrow>
   hole_step g i st = push_entry (not_scored_entry i (map player_id (players g))) st"
  by (simp add: hole_step_def)

lemma hole_step_tie:
  "result (hole_at (holes g) i) = Some TIE \<Longrightarrow>
   hole_step g i st = push_entry (tie_entry i (map player_id (players g)))
      (if pushTies (options g) then st\<lparr>carryPerPlayer := carryPerPlayer st + 1\<rparr> else st)"
  by (simp add: hole_step_def)

lemma hole_step_invalid:
  "result (hole_at (holes g) i) = Some r \<Longrightarrow> r \<noteq> TIE \<Longrightarrow>
   sides (hole_order g i) (hole_at (holes g) i) = None \<Longrightarrow>
   hole_step g i st = push_entry (not_scored_entry i (map player_id (players g))) (if pushTies (options g) then st\<lparr>carryPerPlayer := 0\<rparr> else st)"
  by (simp add: hole_step_def)

lemma hole_step_won:
  "result (hole_at (holes g) i) = Some r \<Longrightarrow> r \<noteq> TIE \<Longrightarrow>
   sides (hole_order g i) (hole_at (holes g) i) = Some (ws, ls, lbl) \<Longrightarrow>
   hole_step g i st =
     (let acc = settle (int (wagerPerPlayer (options g) (carryPerPlayer st) (hole_at (holes g) i)) * POINTS_UNIT)
                  ws ls (zero_deltas (map player_id (players g)), if pushTies (options g) then st\<lparr>carryPerPlayer := 0\<rparr> else st)
      in push_entry \<lparr>hole = i + 1, status = (if r = WOLF then ''WOLF_WIN'' else ''OTHER_WIN''),
                     statusLabel = lbl, deltaByPlayer = fst acc\<rparr> (snd acc))"
  by (simp add: hole_step_def Let_def)

lemma applyDelta_zero: "applyDelta pid 0 acc = acc"
  by (simp add: applyDelta_def)

lemma applyDelta_deltas:
  "fst (applyDelta a d acc) p = (if d = 0 \<or> p \<noteq> a then fst acc p else Some (or_zero (fst acc p) + d))"
  by (simp add: applyDelta_def Let_def or_zero_def)

lemma applyDelta_totals:
  "totals (snd (applyDelta a d acc)) p =
     (if d = 0 \<or> p \<noteq> a then totals (snd acc) p else Some (js_plus (totals (snd acc) p) d))"
  by (simp add: applyDelta_def Let_def js_add_at_def)

lemma applyDelta_won:
  "won (snd (applyDelta a d acc)) p =
     (if 0 < d \<and> p = a then Some (js_plus (won (snd acc) p) d) else won (snd acc) p)"
  by (simp add: applyDelta_def Let_def js_add_at_def)

lemma applyDelta_lost:
  "lost (snd (applyDelta a d acc)) p =
     (if d < 0 \<and> p = a then Some (js_plus (lost (snd acc) p) (- d)) else lost (snd acc) p)"
  by (simp add: applyDelta_def Let_def js_add_at_def)

lemma applyDelta_carry: "carryPerPlayer (snd (applyDelta a d acc)) = carryPerPlayer (snd acc)"
  by (simp add: applyDelta_def Let_def)

lemma applyDelta_perHole: "perHole (snd (applyDelta a d acc)) = perHole (snd acc)"
  by (simp add: applyDelta_def Let_def)

lemma fold_applyDelta_zero: "fold (\<lambda>pid. applyDelta pid 0) ws acc = acc"
  by (induction ws arbitrary: acc) (simp_all add: applyDelta_zero)

lemma fold_applyDelta_carry:
  "carryPerPlayer (snd (fold (\<lambda>pid. applyDelta pid d) ws acc)) = carryPerPlayer (snd acc)"
  by (induction ws arbitrary: acc) (simp_all add: applyDelta_carry)

lemma fold_applyDelta_perHole:
  "perHole (snd (fold (\<lambda>pid. applyDelta pid d) ws acc)) = perHole (snd acc)"
  by (induction ws arbitrary: acc) (simp_all add: applyDelta_perHole)

lemma fold_applyDelta_deltas:
  "distinct ws \<Longrightarrow>
   fst (fold (\<lambda>pid. applyDelta pid d) ws acc) p =
     (if d = 0 \<or> p \<notin> set ws then fst acc p else Some (or_zero (fst acc p) + d))"
  by (induction ws arbitrary: acc) (auto simp add: applyDelta_deltas)

lemma fold_applyDelta_totals:
  "distinct ws \<Longrightarrow>
   totals (snd (fold (\<lambda>pid. applyDelta pid d) ws acc)) p =
     (if d = 0 \<or> p \<notin> set ws then totals (snd acc) p else Some (js_plus (totals (snd acc) p) d))"
  by (induction ws arbitrary: acc) (auto simp add: applyDelta_totals)

lemma fold_applyDelta_won:
  "distinct ws \<Longrightarrow>
   won (snd (fold (\<lambda>pid. applyDelta pid d) ws acc)) p =
     (if 0 < d \<and> p \<in> set ws then Some (js_plus (won (snd acc) p) d) else won (snd acc) p)"
  by (induction ws arbitrary: acc) (auto simp add: applyDelta_won)

lemma fold_applyDelta_lost:
  "distinct ws \<Longrightarrow>
   lost (snd (fold (\<lambda>pid. applyDelta pid d) ws acc)) p =
     (if d < 0 \<and> p \<in> set ws then Some (js_plus (lost (snd acc) p) (- d)) else lost (snd acc) p)"
  by (induction ws arbitrary: acc) (auto simp add: applyDelta_lost)

lemma hole_order_props:
  "set (hole_order g i) = set (map player_id (players g))"
  "distinct (hole_order g i) = distinct (map player_id (players g))"
  "length (hole_order g i) = length (players g)"
  by (simp_all only: hole_order_eq set_rotated distinct_rotated length_rotated)

lemma sides_snoc_lone:
  "loneWolf h \<Longrightarrow>
   sides (bs @ [w]) h =
     Some (if result h = Some WOLF then [w] else bs,
           if result h = Some WOLF then bs else [w],
           if result h = Some WOLF then ''Lone Wolf wins'' else ''Little Piggie win'')"
  by (simp add: sides_def wolfId_of_def key_of_def)

lemma sides_snoc_team:
  "\<not> loneWolf h \<Longrightarrow> partnerId h = Some p \<Longrightarrow> p \<noteq> [] \<Longrightarrow> p \<noteq> w \<Longrightarrow> w \<notin> set bs \<Longrightarrow>
   sides (bs @ [w]) h =
     Some (if result h = Some WOLF then [w, p] else filter (\<lambda>pid. pid \<noteq> p) bs,
           if result h = Some WOLF then filter (\<lambda>pid. pid \<noteq> p) bs else [w, p],
           if result h = Some WOLF then ''Wolf Pack wins'' else ''Little Piggies win'')"
proof -
  assume a: "\<not> loneWolf h" "partnerId h = Some p" "p \<noteq> []" "p \<noteq> w" "w \<notin> set bs"
  have "filter (\<lambda>pid. pid \<noteq> w \<and> pid \<noteq> p) bs = filter (\<lambda>pid. pid \<noteq> p) bs"
    using a(5) by (induction bs) auto
  then show ?thesis using a
    by (simp add: sides_def wolfId_of_def key_of_def)
qed

lemma sides_snoc_invalid:
  "\<not> loneWolf h \<Longrightarrow> partnerId h = None \<or> partnerId h = Some [] \<or> partnerId h = Some w \<Longrightarrow>
   sides (bs @ [w]) h = None"
  by (auto simp add: sides_def wolfId_of_def)

lemma sides_props:
  assumes s: "sides order h = Some (ws, ls, lbl)" and d: "distinct order" and ne: "order \<noteq> []"
  shows "distinct ws \<and> distinct ls \<and> set ws \<inter> set ls = {} \<and> set order \<subseteq> set ws \<union> set ls \<and>
         (loneWolf h \<or> (\<exists>p. partnerId h = Some p \<and> p \<in> set order) \<longrightarrow> set ws \<union> set ls = set order)"
proof -
  obtain bs w where o: "order = bs @ [w]"
    using ne by (metis append_butlast_last_id)
  then have w: "w \<notin> set bs" and dbs: "distinct bs" using d by simp_all
  show ?thesis
  proof (cases "loneWolf h")
    case True
    then show ?thesis using s w dbs unfolding o
      by (auto simp add: sides_snoc_lone split: if_splits)
  next
    case False
    show ?thesis
    proof (cases "partnerId h = None \<or> partnerId h = Some [] \<or> partnerId h = Some w")
      case True
      then show ?thesis using s False unfolding o by (simp add: sides_snoc_invalid)
    next
      case inv: False
      then obtain p where p: "partnerId h = Some p" "p \<noteq> []" "p \<noteq> w" by auto
      show ?thesis using s w dbs p False unfolding o
        by (auto simp add: sides_snoc_team [OF False p w] split: if_splits)
    qed
  qed
qed

lemma sides_empty:
  assumes "sides [] h = Some (ws, ls, lbl)"
  shows "ws = [] \<or> ls = []"
  using assms by (auto simp add: sides_def wolfId_of_def Let_def split: if_splits option.splits)

lemma settle_carry: "carryPerPlayer (snd (settle wu ws ls acc)) = carryPerPlayer (snd acc)"
  by (simp add: settle_def fold_applyDelta_carry)

lemma settle_perHole: "perHole (snd (settle wu ws ls acc)) = perHole (snd acc)"
  by (simp add: settle_def fold_applyDelta_perHole)

lemma settle_deltas:
  assumes "distinct ws" "distinct ls" "set ws \<inter> set ls = {}"
  shows "fst (settle wu ws ls acc) p =
           (if share wu ws ls p = 0 then fst acc p else Some (or_zero (fst acc p) + share wu ws ls p))"
  using assms by (auto simp add: settle_def share_def fold_applyDelta_deltas)

lemma settle_totals:
  assumes "distinct ws" "distinct ls" "set ws \<inter> set ls = {}"
  shows "totals (snd (settle wu ws ls acc)) p =
           (if share wu ws ls p = 0 then totals (snd acc) p
            else Some (js_plus (totals (snd acc) p) (share wu ws ls p)))"
  using assms by (auto simp add: settle_def share_def fold_applyDelta_totals)

lemma settle_won:
  assumes "distinct ws" "distinct ls" "set ws \<inter> set ls = {}" "0 \<le> wu"
  shows "won (snd (settle wu ws ls acc)) p =
           (if 0 < share wu ws ls p then Some (js_plus (won (snd acc) p) (share wu ws ls p))
            else won (snd acc) p)"
  using assms by (auto simp add: settle_def share_def fold_applyDelta_won fold_applyDelta_lost
      mult_less_0_iff zero_less_mult_iff)

lemma settle_lost:
  assumes "distinct ws" "distinct ls" "set ws \<inter> set ls = {}" "0 \<le> wu"
  shows "lost (snd (settle wu ws ls acc)) p =
           (if share wu ws ls p < 0 then Some (js_plus (lost (snd acc) p) (- share wu ws ls p))
            else lost (snd acc) p)"
  using assms by (auto simp add: settle_def share_def fold_applyDelta_won fold_applyDelta_lost
      mult_less_0_iff zero_less_mult_iff)

lemma settle_no_transfer: "ws = [] \<or> ls = [] \<Longrightarrow> settle wu ws ls acc = acc"
  by (auto simp add: settle_def fold_applyDelta_zero)

lemma zero_deltas_apply:
  "zero_deltas ids p = (if p \<in> set ids then Some 0 else None)"
  by (induction ids) (simp_all add: zero_deltas_def)

lemma zero_totals_apply:
  "zero_totals ids p = (if p \<in> set ids then Some (Num 0) else None)"
  by (induction ids) (simp_all add: zero_totals_def)

lemma or_zero_zero_deltas [simp]: "or_zero (zero_deltas ids p) = 0"
  by (simp add: zero_deltas_apply or_zero_def)

lemma wager_nonneg: "0 \<le> int (wagerPerPlayer opts c h) * POINTS_UNIT"
  by (simp add: POINTS_UNIT_def)

text \<open>
  Every iteration pushes exactly one entry; either it transfers nothing, or it is a won
  hole settled between the two sides.
\<close>

lemma hole_step_shape:
  fixes g i st
  defines "ids \<equiv> map player_id (players g)"
  defines "h \<equiv> hole_at (holes g) i"
  shows "(\<exists>e st'. hole_step g i st = push_entry e st' \<and> deltaByPlayer e = zero_deltas ids \<and>
            totals st' = totals st \<and> won st' = won st \<and> lost st' = lost st \<and>
            perHole st' = perHole st \<and> status e \<in> {''NOT_SCORED'', ''TIE''}) \<or>
         (\<exists>ws ls lbl acc. result h \<noteq> None \<and> result h \<noteq> Some TIE \<and>
            sides (hole_order g i) h = Some (ws, ls, lbl) \<and>
            acc = settle (int (wagerPerPlayer (options g) (carryPerPlayer st) h) * POINTS_UNIT) ws ls
                    (zero_deltas ids, if pushTies (options g) then st\<lparr>carryPerPlayer := 0\<rparr> else st) \<and>
            hole_step g i st =
              push_entry \<lparr>hole = i + 1,
                          status = (if result h = Some WOLF then ''WOLF_WIN'' else ''OTHER_WIN''),
                          statusLabel = lbl, deltaByPlayer = fst acc\<rparr> (snd acc))"
proof (cases "result h")
  case None
  then have "hole_step g i st = push_entry (not_scored_entry i ids) st"
    unfolding h_def ids_def by (rule hole_step_unscored)
  then show ?thesis
    by (intro disjI1 exI [of _ "not_scored_entry i ids"] exI [of _ st])
       (simp add: not_scored_entry_def)
next
  case (Some r)
  show ?thesis
  proof (cases "r = TIE")
    case True
    then have "hole_step g i st = push_entry (tie_entry i ids)
        (if pushTies (options g) then st\<lparr>carryPerPlayer := carryPerPlayer st + 1\<rparr> else st)"
      using Some unfolding h_def ids_def by (simp add: hole_step_tie)
    then show ?thesis
      by (intro disjI1 exI [of _ "tie_entry i ids"]
            exI [of _ "if pushTies (options g) then st\<lparr>carryPerPlayer := carryPerPlayer st + 1\<rparr> else st"])
         (simp add: tie_entry_def)
  next
    case False
    show ?thesis
    proof (cases "sides (hole_order g i) h")
      case None
      then have "hole_step g i st = push_entry (not_scored_entry i ids)
          (if pushTies (options g) then st\<lparr>carryPerPlayer := 0\<rparr> else st)"
        using Some False unfolding h_def ids_def by (simp add: hole_step_invalid)
      then show ?thesis
        by (intro disjI1 exI [of _ "not_scored_entry i ids"]
              exI [of _ "if pushTies (options g) then st\<lparr>carryPerPlayer := 0\<rparr> else st"])
           (simp add: not_scored_entry_def)
    next
      case sd: (Some t)
      obtain ws ls lbl where t: "t = (ws, ls, lbl)" by (cases t) auto
      have "hole_step g i st =
         (let acc = settle (int (wagerPerPlayer (options g) (carryPerPlayer st) h) * POINTS_UNIT)
                  ws ls (zero_deltas ids, if pushTies (options g) then st\<lparr>carryPerPlayer := 0\<rparr> else st)
          in push_entry \<lparr>hole = i + 1, status = (if r = WOLF then ''WOLF_WIN'' else ''OTHER_WIN''),
                     statusLabel = lbl, deltaByPlayer = fst acc\<rparr> (snd acc))"
        using Some False sd t unfolding h_def ids_def by (simp add: hole_step_won)
      then show ?thesis using Some False sd t
        by (intro disjI2) (simp add: Let_def)
    qed
  qed
qed

lemma perHole_hole_step: "perHole (hole_step g i st) = perHole st @ [pushed g i st]"
proof -
  have "\<exists>e. perHole (hole_step g i st) = perHole st @ [e]"
    using hole_step_shape [of g i st]
    by (auto simp add: push_entry_def settle_perHole)
  then show ?thesis by (auto simp add: pushed_def)
qed

lemma step_effect:
  fixes g i st p
  assumes d: "distinct (map player_id (players g))"
  defines "x \<equiv> delta_of (pushed g i st) p"
  shows "totals (hole_step g i st) p = (if x = 0 then totals st p else Some (js_plus (totals st p) x))"
    and "won (hole_step g i st) p = (if 0 < x then Some (js_plus (won st p) x) else won st p)"
    and "lost (hole_step g i st) p = (if x < 0 then Some (js_plus (lost st p) (- x)) else lost st p)"
    and "p \<in> set (map player_id (players g)) \<Longrightarrow> deltaByPlayer (pushed g i st) p = Some x"
proof -
  let ?ids = "map player_id (players g)"
  let ?h = "hole_at (holes g) i"
  let ?st1 = "if pushTies (options g) then st\<lparr>carryPerPlayer := 0\<rparr> else st"
  let ?wu = "int (wagerPerPlayer (options g) (carryPerPlayer st) ?h) * POINTS_UNIT"
  have "(totals (hole_step g i st) p = (if x = 0 then totals st p else Some (js_plus (totals st p) x))) \<and>
        (won (hole_step g i st) p = (if 0 < x then Some (js_plus (won st p) x) else won st p)) \<and>
        (lost (hole_step g i st) p = (if x < 0 then Some (js_plus (lost st p) (- x)) else lost st p)) \<and>
        (p \<in> set ?ids \<longrightarrow> deltaByPlayer (pushed g i st) p = Some x)"
    using hole_step_shape [of g i st]
  proof (elim disjE exE conjE)
    fix e st'
    assume a: "hole_step g i st = push_entry e st'" "deltaByPlayer e = zero_deltas ?ids"
      "totals st' = totals st" "won st' = won st" "lost st' = lost st" "perHole st' = perHole st"
    then have "pushed g i st = e" by (simp add: pushed_def push_entry_def)
    then have "x = 0" "p \<in> set ?ids \<longrightarrow> deltaByPlayer (pushed g i st) p = Some 0"
      using a(2) by (simp_all add: x_def delta_of_def zero_deltas_apply or_zero_def)
    then show ?thesis using a by (simp add: push_entry_def)
  next
    fix ws ls lbl acc
    assume s: "sides (hole_order g i) ?h = Some (ws, ls, lbl)"
      and acc: "acc = settle ?wu ws ls (zero_deltas ?ids, ?st1)"
      and hs: "hole_step g i st = push_entry \<lparr>hole = i + 1,
                  status = (if result ?h = Some WOLF then ''WOLF_WIN'' else ''OTHER_WIN''),
                  statusLabel = lbl, deltaByPlayer = fst acc\<rparr> (snd acc)"
    have pe: "deltaByPlayer (pushed g i st) = fst acc"
      using hs by (simp add: pushed_def push_entry_def)
    have tot: "totals (hole_step g i st) = totals (snd acc)" "won (hole_step g i st) = won (snd acc)"
      "lost (hole_step g i st) = lost (snd acc)"
      using hs by (simp_all add: push_entry_def)
    show ?thesis
    proof (cases "players g = []")
      case True
      then have "hole_order g i = []" by (simp add: hole_order_def)
      then have "ws = [] \<or> ls = []" using s sides_empty by metis
      then have "acc = (zero_deltas ?ids, ?st1)" using acc by (simp add: settle_no_transfer)
      then show ?thesis using pe tot True
        by (simp add: x_def delta_of_def zero_deltas_apply or_zero_def)
    next
      case False
      then have "hole_order g i \<noteq> []" using hole_order_props(3) [of g i] by auto
      moreover have "distinct (hole_order g i)" using d by (simp only: hole_order_props)
      ultimately have sp: "distinct ws" "distinct ls" "set ws \<inter> set ls = {}"
        using sides_props [OF s] by simp_all
      have dl: "fst acc p = (if share ?wu ws ls p = 0 then zero_deltas ?ids p else Some (share ?wu ws ls p))"
        unfolding acc by (simp add: settle_deltas [OF sp])
      then have x: "x = share ?wu ws ls p"
        by (simp add: x_def delta_of_def pe or_zero_def zero_deltas_apply)
      have "p \<in> set ?ids \<longrightarrow> deltaByPlayer (pushed g i st) p = Some x"
        using dl x by (simp add: pe zero_deltas_apply)
      moreover have "totals (snd acc) p = (if x = 0 then totals st p else Some (js_plus (totals st p) x))"
        unfolding acc x by (simp add: settle_totals [OF sp])
      moreover have "won (snd acc) p = (if 0 < x then Some (js_plus (won st p) x) else won st p)"
        unfolding acc x by (simp add: settle_won [OF sp wager_nonneg])
      moreover have "lost (snd acc) p = (if x < 0 then Some (js_plus (lost st p) (- x)) else lost st p)"
        unfolding acc x by (simp add: settle_lost [OF sp wager_nonneg])
      ultimately show ?thesis using tot by simp
    qed
  qed
  then show "totals (hole_step g i st) p = (if x = 0 then totals st p else Some (js_plus (totals st p) x))"
    and "won (hole_step g i st) p = (if 0 < x then Some (js_plus (won st p) x) else won st p)"
    and "lost (hole_step g i st) p = (if x < 0 then Some (js_plus (lost st p) (- x)) else lost st p)"
    and "p \<in> set (map player_id (players g)) \<Longrightarrow> deltaByPlayer (pushed g i st) p = Some x"
    by simp_all
qed

lemma init_state_fields:
  "totals (init_state g) = zero_totals (map player_id (players g))"
  "won (init_state g) = zero_totals (map player_id (players g))"
  "lost (init_state g) = zero_totals (map player_id (players g))"
  "perHole (init_state g) = []"
  "carryPerPlayer (init_state g) = 0"
  by (simp_all add: init_state_def Let_def)

lemma length_perHole_run: "length (perHole (run g k)) = k"
  by (induction k) (simp_all add: run_0 run_Suc init_state_fields perHole_hole_step)

lemma perHole_run_nth:
  "i < k \<Longrightarrow> perHole (run g k) ! i = pushed g i (run g i)"
proof (induction k)
  case 0
  then show ?case by simp
next
  case (Suc k)
  show ?case
  proof (cases "i = k")
    case True
    then show ?thesis
      by (simp add: run_Suc perHole_hole_step nth_append length_perHole_run)
  next
    case False
    then have "i < k" using Suc.prems by simp
    then show ?thesis using Suc.IH
      by (simp add: run_Suc perHole_hole_step nth_append length_perHole_run)
  qed
qed

lemma computeScores_fields:
  "totals (computeScores g) = totals (run g (holeCount g))"
  "won (computeScores g) = won (run g (holeCount g))"
  "lost (computeScores g) = lost (run g (holeCount g))"
  "perHole (computeScores g) = perHole (run g (holeCount g))"
  by (simp_all add: computeScores_def Let_def)

lemma computeScores_entry:
  "i < holeCount g \<Longrightarrow> perHole (computeScores g) ! i = pushed g i (run g i)"
  by (simp add: computeScores_fields perHole_run_nth)

text \<open>The running totals are the sums of the deltas pushed so far.\<close>

lemma run_tallies:
  assumes d: "distinct (map player_id (players g))" and p: "p \<in> set (map player_id (players g))"
  shows "totals (run g k) p = Some (Num (\<Sum>e\<leftarrow>perHole (run g k). delta_of e p)) \<and>
         won (run g k) p = Some (Num (\<Sum>e\<leftarrow>perHole (run g k). max 0 (delta_of e p))) \<and>
         lost (run g k) p = Some (Num (\<Sum>e\<leftarrow>perHole (run g k). max 0 (- delta_of e p)))"
proof (induction k)
  case 0
  then show ?case using p by (simp add: run_0 init_state_fields zero_totals_apply)
next
  case (Suc k)
  then show ?case
    by (simp add: run_Suc perHole_hole_step step_effect(1-3) [OF d])
qed

lemma sum_list_pos_neg:
  "(\<Sum>e\<leftarrow>es. (f e :: int)) = (\<Sum>e\<leftarrow>es. max 0 (f e)) - (\<Sum>e\<leftarrow>es. max 0 (- f e))"
  by (induction es) auto

lemma sum_list_max_nonneg: "0 \<le> (\<Sum>e\<leftarrow>es. max 0 (f e :: int))"
  by (induction es) auto

lemma carry_hole_step:
  "carryPerPlayer (hole_step g i st) =
     (if result (hole_at (holes g) i) = None then carryPerPlayer st
      else if \<not> pushTies (options g) then carryPerPlayer st
      else if result (hole_at (holes g) i) = Some TIE then carryPerPlayer st + 1
      else 0)"
proof (cases "result (hole_at (holes g) i)")
  case None
  then show ?thesis by (simp add: hole_step_unscored push_entry_def)
next
  case (Some r)
  show ?thesis
  proof (cases "r = TIE")
    case True
    then show ?thesis using Some by (simp add: hole_step_tie push_entry_def)
  next
    case False
    show ?thesis
    proof (cases "sides (hole_order g i) (hole_at (holes g) i)")
      case None
      then show ?thesis using Some False by (simp add: hole_step_invalid push_entry_def)
    next
      case sd: (Some t)
      obtain ws ls lbl where "t = (ws, ls, lbl)" by (cases t) auto
      then show ?thesis using Some False sd
        by (simp add: hole_step_won push_entry_def settle_carry Let_def)
    qed
  qed
qed

lemma pushed_unscored:
  "result (hole_at (holes g) i) = None \<Longrightarrow>
   pushed g i st = not_scored_entry i (map player_id (players g))"
  by (simp add: pushed_def hole_step_unscored push_entry_def)

lemma pushed_tie:
  "result (hole_at (holes g) i) = Some TIE \<Longrightarrow>
   pushed g i st = tie_entry i (map player_id (players g))"
  by (simp add: pushed_def hole_step_tie push_entry_def)

lemma pushed_invalid:
  "result (hole_at (holes g) i) = Some r \<Longrightarrow> r \<noteq> TIE \<Longrightarrow>
   sides (hole_order g i) (hole_at (holes g) i) = None \<Longrightarrow>
   pushed g i st = not_scored_entry i (map player_id (players g))"
  by (simp add: pushed_def hole_step_invalid push_entry_def)

lemma pushed_won:
  "result (hole_at (holes g) i) = Some r \<Longrightarrow> r \<noteq> TIE \<Longrightarrow>
   sides (hole_order g i) (hole_at (holes g) i) = Some (ws, ls, lbl) \<Longrightarrow>
   pushed g i st =
     \<lparr>hole = i + 1, status = (if r = WOLF then ''WOLF_WIN'' else ''OTHER_WIN''), statusLabel = lbl,
      deltaByPlayer = fst (settle (int (wagerPerPlayer (options g) (carryPerPlayer st) (hole_at (holes g) i)) * POINTS_UNIT)
                  ws ls (zero_deltas (map player_id (players g)),
                         if pushTies (options g) then st\<lparr>carryPerPlayer := 0\<rparr> else st))\<rparr>"
  by (simp add: pushed_def hole_step_won push_entry_def Let_def)

lemma delta_won:
  assumes d: "distinct (map player_id (players g))"
    and r: "result (hole_at (holes g) i) = Some r" "r \<noteq> TIE"
    and s: "sides (hole_order g i) (hole_at (holes g) i) = Some (ws, ls, lbl)"
  shows "delta_of (pushed g i st) p =
           share (int (wagerPerPlayer (options g) (carryPerPlayer st) (hole_at (holes g) i))) ws ls p"
proof -
  let ?wu = "int (wagerPerPlayer (options g) (carryPerPlayer st) (hole_at (holes g) i)) * POINTS_UNIT"
  let ?acc = "(zero_deltas (map player_id (players g)),
               if pushTies (options g) then st\<lparr>carryPerPlayer := 0\<rparr> else st)"
  have pe: "delta_of (pushed g i st) p = or_zero (fst (settle ?wu ws ls ?acc) p)"
    by (simp add: pushed_won [OF r s] delta_of_def)
  have wu: "?wu = int (wagerPerPlayer (options g) (carryPerPlayer st) (hole_at (holes g) i))"
    by (simp add: POINTS_UNIT_def)
  show ?thesis
  proof (cases "players g = []")
    case True
    then have "hole_order g i = []" by (simp add: hole_order_def)
    then have e: "ws = [] \<or> ls = []" using s sides_empty by metis
    then have "settle ?wu ws ls ?acc = ?acc" by (rule settle_no_transfer)
    moreover have "share ?wu ws ls p = 0" using e by (auto simp add: share_def)
    ultimately show ?thesis using pe wu by simp
  next
    case False
    then have "hole_order g i \<noteq> []" using hole_order_props(3) [of g i] by auto
    moreover have "distinct (hole_order g i)" using d by (simp only: hole_order_props)
    ultimately have sp: "distinct ws" "distinct ls" "set ws \<inter> set ls = {}"
      using sides_props [OF s] by simp_all
    have "or_zero (fst (settle ?wu ws ls ?acc) p) = share ?wu ws ls p"
      by (simp add: settle_deltas [OF sp] or_zero_def zero_deltas_apply)
    then show ?thesis using pe wu by simp
  qed
qed

lemma sides_valid:
  assumes "order \<noteq> []" "distinct order"
    and "loneWolf h \<or> (\<exists>q. partnerId h = Some q \<and> q \<noteq> [] \<and> Some q \<noteq> wolfId_of order)"
  shows "\<exists>ws ls lbl. sides order h = Some (ws, ls, lbl)"
proof -
  obtain bs w where o: "order = bs @ [w]"
    using assms(1) by (metis append_butlast_last_id)
  then have w: "w \<notin> set bs" using assms(2) by simp
  show ?thesis
  proof (cases "loneWolf h")
    case True
    then show ?thesis unfolding o by (simp add: sides_snoc_lone)
  next
    case False
    then obtain q where q: "partnerId h = Some q" "q \<noteq> []" "q \<noteq> w"
      using assms(3) unfolding o by (auto simp add: wolfId_of_def)
    show ?thesis unfolding o by (simp add: sides_snoc_team [OF False q w])
  qed
qed

lemma sides_lone_other:
  assumes "order \<noteq> []" "loneWolf h" "result h = Some OTHER"
  shows "sides order h = Some (butlast order, [last order], ''Little Piggie win'')"
  using assms by (simp add: sides_def wolfId_of_def key_of_def)

lemma abcd_ids: "map player_id abcd = [''A'', ''B'', ''C'', ''D'']"
  by (simp add: abcd_def)

lemma last_wolves_distinct:
  assumes "distinct (map player_id ps)" "ps \<noteq> []"
  shows "distinct (map (\<lambda>j. last (rotatedOrderForHole ps j)) [i..<i + length ps])"
  using wolf_inj [OF assms, of i] by (simp add: distinct_map)

lemma rotated_abcd:
  "rotatedOrderForHole abcd 0 = [''A'', ''B'', ''C'', ''D'']"
  "rotatedOrderForHole abcd (Suc 0) = [''D'', ''A'', ''B'', ''C'']"
  "rotatedOrderForHole abcd (Suc (Suc 0)) = [''C'', ''D'', ''A'', ''B'']"
  "rotatedOrderForHole abcd (Suc (Suc (Suc 0))) = [''B'', ''C'', ''D'', ''A'']"
  by (simp_all add: rotatedOrderForHole_def Let_def abcd_def)

lemma quiet_step_fields:
  "totals (push_entry e st) = totals st" "won (push_entry e st) = won st"
  "lost (push_entry e st) = lost st" "carryPerPlayer (push_entry e st) = carryPerPlayer st"
  by (simp_all add: push_entry_def)

lemma sides_invalid:
  "\<not> loneWolf h \<Longrightarrow> partnerId h = None \<or> partnerId h = Some [] \<or> partnerId h = wolfId_of order \<Longrightarrow>
   sides order h = None"
  by (auto simp add: sides_def Let_def split: option.splits)

lemma not_scored_entry_fields:
  "status (not_scored_entry i ids) = ''NOT_SCORED''"
  "deltaByPlayer (not_scored_entry i ids) p = (if p \<in> set ids then Some 0 else None)"
  by (simp_all add: not_scored_entry_def zero_deltas_apply)

lemma tie_entry_fields:
  "status (tie_entry i ids) = ''TIE''"
  "deltaByPlayer (tie_entry i ids) p = (if p \<in> set ids then Some 0 else None)"
  by (simp_all add: tie_entry_def zero_deltas_apply)

lemma gap_game_facts:
  "map player_id (players gap_game) = [''A'', ''B'', ''C'', ''D'']"
  "holeCount gap_game = 3"
  "pushTies (options gap_game)"
  "hole_at (holes gap_game) 0 = \<lparr>partnerId = None, loneWolf = False, result = Some TIE, blind = False\<rparr>"
  "hole_at (holes gap_game) (Suc 0) = \<lparr>partnerId = Some ''A'', loneWolf = False, result = None, blind = False\<rparr>"
  "hole_at (holes gap_game) (Suc (Suc 0)) = \<lparr>partnerId = None, loneWolf = False, result = Some WOLF, blind = False\<rparr>"
  by (simp_all add: gap_game_def abcd_ids hole_at_def)

lemma run_carry_Suc:
  "carryPerPlayer (run g (Suc i)) =
     (if result (hole_at (holes g) i) = None then carryPerPlayer (run g i)
      else if \<not> pushTies (options g) then carryPerPlayer (run g i)
      else if result (hole_at (holes g) i) = Some TIE then carryPerPlayer (run g i) + 1
      else 0)"
  by (simp only: run_Suc carry_hole_step)

lemma run_carry_0: "carryPerPlayer (run g 0) = 0"
  by (simp add: run_0 init_state_fields)

lemma tie_tie_win_game_facts:
  "map player_id (players tie_tie_win_game) = [''A'', ''B'', ''C'', ''D'']"
  "holeCount tie_tie_win_game = 3"
  "pushTies (options tie_tie_win_game)"
  "\<not> blindWolf (options tie_tie_win_game)"
  "hole_at (holes tie_tie_win_game) 0 = \<lparr>partnerId = None, loneWolf = False, result = Some TIE, blind = False\<rparr>"
  "hole_at (holes tie_tie_win_game) (Suc 0) = \<lparr>partnerId = None, loneWolf = True, result = Some TIE, blind = True\<rparr>"
  "hole_at (holes tie_tie_win_game) (Suc (Suc 0)) = \<lparr>partnerId = None, loneWolf = True, result = Some WOLF, blind = False\<rparr>"
  by (simp_all add: tie_tie_win_game_def abcd_ids hole_at_def)

lemma hole_order_abcd:
  assumes "players g = abcd"
  shows "hole_order g 0 = [''A'', ''B'', ''C'', ''D'']"
    "hole_order g (Suc 0) = [''D'', ''A'', ''B'', ''C'']"
    "hole_order g (Suc (Suc 0)) = [''C'', ''D'', ''A'', ''B'']"
    "hole_order g (Suc (Suc (Suc 0))) = [''B'', ''C'', ''D'', ''A'']"
  by (simp_all only: hole_order_eq assms rotated_abcd)

lemma hole_step_cong:
  assumes "map player_id (players g) = map player_id (players g')" "options g = options g'"
    and "hole_at (holes g) i = hole_at (holes g') i"
  shows "hole_step g i st = hole_step g' i st"
proof -
  have "length (players g) = length (players g')"
    using assms(1) by (rule map_eq_imp_length_eq)
  then have ho: "hole_order g i = hole_order g' i"
    using assms(1) by (simp add: hole_order_def)
  show ?thesis unfolding hole_step_def ho assms ..
qed

lemma run_cong:
  assumes "map player_id (players g) = map player_id (players g')" "options g = options g'"
    and "\<forall>i<k. hole_at (holes g) i = hole_at (holes g') i"
  shows "run g k = run g' k"
  using assms(3)
proof (induction k)
  case 0
  then show ?case using assms(1) by (simp add: run_0 init_state_def)
next
  case (Suc k)
  then have "run g k = run g' k" by simp
  moreover have "hole_at (holes g) k = hole_at (holes g') k" using Suc.prems by simp
  ultimately show ?case
    using hole_step_cong [OF assms(1,2), of k] by (simp add: run_Suc)
qed

lemma run_unscored_tail:
  assumes "\<forall>i. k \<le> i \<and> i < m \<longrightarrow> result (hole_at (holes g) i) = None" "k \<le> m"
  shows "totals (run g m) = totals (run g k) \<and> won (run g m) = won (run g k) \<and>
         lost (run g m) = lost (run g k) \<and> carryPerPlayer (run g m) = carryPerPlayer (run g k)"
  using assms
proof (induction m)
  case 0
  then show ?case by simp
next
  case (Suc m)
  show ?case
  proof (cases "k = Suc m")
    case True
    then show ?thesis by simp
  next
    case False
    then have km: "k \<le> m" using Suc.prems by simp
    then have r: "result (hole_at (holes g) m) = None" using Suc.prems by simp
    have "totals (run g m) = totals (run g k) \<and> won (run g m) = won (run g k) \<and>
         lost (run g m) = lost (run g k) \<and> carryPerPlayer (run g m) = carryPerPlayer (run g k)"
      using Suc.IH Suc.prems km by simp
    then show ?thesis
      by (simp add: run_Suc hole_step_unscored [OF r] quiet_step_fields)
  qed
qed

lemma computeScores_cong:
  assumes "map player_id (players g) = map player_id (players g')" "options g = options g'"
    and "holeCount g = holeCount g'"
    and "\<forall>i<holeCount g. hole_at (holes g) i = hole_at (holes g') i"
  shows "computeScores g = computeScores g'"
  using run_cong [OF assms(1,2,4)] assms(3) by (simp add: computeScores_def)

lemma hole_at_append_old: "i < length hs \<Longrightarrow> hole_at (hs @ extra) i = hole_at hs i"
  by (simp add: hole_at_def nth_append)

lemma hole_at_append_new:
  assumes "\<forall>h\<in>set extra. result h = None" "length hs \<le> i"
  shows "result (hole_at (hs @ extra) i) = None"
proof (cases "i < length (hs @ extra)")
  case True
  then have "(hs @ extra) ! i = extra ! (i - length hs)" "i - length hs < length extra"
    using assms(2) by (simp_all add: nth_append)
  then have "(hs @ extra) ! i \<in> set extra" by simp
  then show ?thesis using assms(1) True by (simp add: hole_at_def)
next
  case False
  then show ?thesis by (simp add: hole_at_def empty_hole_def)
qed

lemma hole_at_beyond: "length hs \<le> i \<Longrightarrow> result (hole_at hs i) = None"
  by (simp add: hole_at_def empty_hole_def)

lemma sum_list_indicator:
  assumes "distinct ids" "distinct ws" "set ws \<subseteq> set ids"
  shows "(\<Sum>p\<leftarrow>ids. if p \<in> set ws then c else (0::int)) = c * int (length ws)"
proof -
  have "(\<Sum>p\<leftarrow>ids. if p \<in> set ws then c else 0) = (\<Sum>p\<in>set ids. if p \<in> set ws then c else 0)"
    using assms(1) by (rule sum_list_distinct_conv_sum_set)
  also have "\<dots> = (\<Sum>p\<in>set ids \<inter> set ws. c)"
    by (rule sum.inter_restrict [symmetric]) simp
  also have "set ids \<inter> set ws = set ws" using assms(3) by blast
  also have "(\<Sum>p\<in>set ws. c) = c * int (card (set ws))" by simp
  also have "card (set ws) = length ws" using assms(2) by (rule distinct_card)
  finally show ?thesis .
qed

lemma sum_list_share:
  assumes "distinct ids" "distinct ws" "distinct ls" "set ws \<inter> set ls = {}"
    "set ws \<union> set ls \<subseteq> set ids"
  shows "(\<Sum>p\<leftarrow>ids. share wu ws ls p) = 0"
proof -
  have "\<And>p. share wu ws ls p =
      (if p \<in> set ws then wu * int (length ls) else 0) +
      (if p \<in> set ls then - (wu * int (length ws)) else 0)"
    using assms(4) by (auto simp add: share_def)
  then have "(\<Sum>p\<leftarrow>ids. share wu ws ls p) =
      (\<Sum>p\<leftarrow>ids. if p \<in> set ws then wu * int (length ls) else 0) +
      (\<Sum>p\<leftarrow>ids. if p \<in> set ls then - (wu * int (length ws)) else 0)"
    by (simp add: sum_list_addf)
  also have "\<dots> = wu * int (length ls) * int (length ws) + - (wu * int (length ws)) * int (length ls)"
    using assms by (simp add: sum_list_indicator)
  finally show ?thesis by simp
qed

text \<open>When every partner named is a player, each entry's deltas sum to zero over the roster.\<close>

lemma pushed_zero_sum:
  assumes d: "distinct (map player_id (players g))"
    and v: "\<forall>q. partnerId (hole_at (holes g) i) = Some q \<longrightarrow> q \<in> set (map player_id (players g))"
  shows "(\<Sum>p\<leftarrow>map player_id (players g). delta_of (pushed g i st) p) = 0 \<and>
         dom (deltaByPlayer (pushed g i st)) = set (map player_id (players g))"
proof -
  let ?ids = "map player_id (players g)" and ?h = "hole_at (holes g) i"
  have quiet: "deltaByPlayer (pushed g i st) = zero_deltas ?ids \<Longrightarrow> ?thesis"
  proof -
    assume z: "deltaByPlayer (pushed g i st) = zero_deltas ?ids"
    then have "\<And>p. delta_of (pushed g i st) p = 0" by (simp add: delta_of_def)
    moreover have "dom (zero_deltas ?ids) = set ?ids"
      by (auto simp add: zero_deltas_apply dom_def)
    ultimately show ?thesis using z by (simp add: comp_def)
  qed
  show ?thesis
  proof (cases "result ?h")
    case None
    then show ?thesis using quiet by (simp add: pushed_unscored not_scored_entry_def)
  next
    case (Some r)
    show ?thesis
    proof (cases "r = TIE")
      case True
      then show ?thesis using quiet Some by (simp add: pushed_tie tie_entry_def)
    next
      case False
      show ?thesis
      proof (cases "sides (hole_order g i) ?h")
        case None
        then show ?thesis using quiet Some False by (simp add: pushed_invalid not_scored_entry_def)
      next
        case sd: (Some t)
        obtain ws ls lbl where t: "t = (ws, ls, lbl)" by (cases t) auto
        then have s: "sides (hole_order g i) ?h = Some (ws, ls, lbl)" using sd by simp
        let ?wu = "int (wagerPerPlayer (options g) (carryPerPlayer st) ?h)"
        have dl: "\<And>p. delta_of (pushed g i st) p = share ?wu ws ls p"
          by (rule delta_won [OF d Some False s])
        show ?thesis
        proof (cases "players g = []")
          case True
          then have "hole_order g i = []" by (simp add: hole_order_def)
          then have "ws = [] \<or> ls = []" using s sides_empty by metis
          then have "pushed g i st = \<lparr>hole = i + 1, status = (if r = WOLF then ''WOLF_WIN'' else ''OTHER_WIN''),
              statusLabel = lbl, deltaByPlayer = zero_deltas ?ids\<rparr>"
            by (simp add: pushed_won [OF Some False s] settle_no_transfer)
          then show ?thesis using quiet by simp
        next
          case ne: False
          then have one: "hole_order g i \<noteq> []" using hole_order_props(3) [of g i] by auto
          have od: "distinct (hole_order g i)" using d by (simp only: hole_order_props)
          have os: "set (hole_order g i) = set ?ids" by (simp only: hole_order_props)
          have "loneWolf ?h \<or> (\<exists>q. partnerId ?h = Some q \<and> q \<in> set (hole_order g i))"
          proof (cases "loneWolf ?h")
            case True then show ?thesis by simp
          next
            case nl: False
            then obtain q where "partnerId ?h = Some q"
              using s by (cases "partnerId ?h") (simp_all add: sides_def)
            then show ?thesis using v os by auto
          qed
          then have sp: "distinct ws" "distinct ls" "set ws \<inter> set ls = {}" "set ws \<union> set ls = set ?ids"
            using sides_props [OF s od one] os by simp_all
          have "(\<Sum>p\<leftarrow>?ids. share ?wu ws ls p) = 0"
            using d sp by (intro sum_list_share) simp_all
          then have sum: "(\<Sum>p\<leftarrow>?ids. delta_of (pushed g i st) p) = 0"
            by (simp add: dl)
          have "\<And>p. deltaByPlayer (pushed g i st) p =
              (if share (?wu * POINTS_UNIT) ws ls p = 0 then zero_deltas ?ids p
               else Some (share (?wu * POINTS_UNIT) ws ls p))"
            by (simp add: pushed_won [OF Some False s] settle_deltas [OF sp(1-3)])
          then have "\<And>p. (deltaByPlayer (pushed g i st) p \<noteq> None) = (p \<in> set ?ids)"
            using sp(4) by (auto simp add: zero_deltas_apply share_def)
          then have "dom (deltaByPlayer (pushed g i st)) = set ?ids"
            by (auto simp add: dom_def)
          then show ?thesis using sum by simp
        qed
      qed
    qed
  qed
qed

lemma js_sum_nums: "js_sum (map (\<lambda>p. Some (Num (f p))) ps) = Num (\<Sum>p\<leftarrow>ps. f p)"
  by (induction ps) simp_all

lemma run_zero_sum:
  assumes d: "distinct (map player_id (players g))"
    and v: "\<forall>i<k. \<forall>q. partnerId (hole_at (holes g) i) = Some q \<longrightarrow>
              q \<in> set (map player_id (players g))"
  shows "(\<Sum>p\<leftarrow>map player_id (players g). \<Sum>e\<leftarrow>perHole (run g k). delta_of e p) = 0"
  using v
proof (induction k)
  case 0
  then show ?case by (simp add: run_0 init_state_fields comp_def)
next
  case (Suc k)
  have "\<forall>q. partnerId (hole_at (holes g) k) = Some q \<longrightarrow>
              q \<in> set (map player_id (players g))"
    using Suc.prems by blast
  from pushed_zero_sum [OF d this, of "run g k"]
  have "(\<Sum>p\<leftarrow>map player_id (players g). delta_of (pushed g k (run g k)) p) = 0" ..
  moreover have "(\<Sum>p\<leftarrow>map player_id (players g). \<Sum>e\<leftarrow>perHole (run g k). delta_of e p) = 0"
    using Suc.IH Suc.prems by (meson less_Suc_eq)
  ultimately show ?case
    by (simp add: run_Suc perHole_hole_step sum_list_addf comp_def)
qed

lemma team_win_game_facts:
  "map player_id (players team_win_game) = [''A'', ''B'', ''C'', ''D'']"
  "players team_win_game = abcd"
  "holeCount team_win_game = 1"
  "hole_at (holes team_win_game) 0 = \<lparr>partnerId = Some ''A'', loneWolf = False, result = Some WOLF, blind = False\<rparr>"
  "\<And>c. wagerPerPlayer (options team_win_game) c (hole_at (holes team_win_game) 0) = 1"
  by (simp_all add: team_win_game_def abcd_ids hole_at_def wagerPerPlayer_def
      baseWagerPerPlayer_def isBlind_def)

lemma team_win_game_sides:
  "sides (hole_order team_win_game 0) (hole_at (holes team_win_game) 0)
     = Some ([''D'', ''A''], [''B'', ''C''], ''Wolf Pack wins'')"
  by (simp add: hole_order_abcd [OF team_win_game_facts(2)] team_win_game_facts(4)
      sides_def wolfId_of_def key_of_def)

lemma team_win_game_deltas:
  "delta_of (perHole (computeScores team_win_game) ! 0) p = share 1 [''D'', ''A''] [''B'', ''C''] p"
proof -
  have d: "distinct (map player_id (players team_win_game))"
    by (simp add: team_win_game_facts(1))
  have r: "result (hole_at (holes team_win_game) 0) = Some WOLF" "WOLF \<noteq> TIE"
    by (simp_all add: team_win_game_facts)
  have "perHole (computeScores team_win_game) ! 0 = pushed team_win_game 0 (run team_win_game 0)"
    by (rule computeScores_entry) (simp add: team_win_game_facts)
  then show ?thesis
    using delta_won [OF d r team_win_game_sides, of "run team_win_game 0" p]
    by (simp add: team_win_game_facts(5))
qed

lemma lost_carry_game_facts:
  "map player_id (players lost_carry_game) = [''A'', ''B'', ''C'', ''D'']"
  "holeCount lost_carry_game = 3"
  "pushTies (options lost_carry_game)"
  "\<not> blindWolf (options lost_carry_game)"
  "hole_at (holes lost_carry_game) 0 = \<lparr>partnerId = None, loneWolf = False, result = Some TIE, blind = False\<rparr>"
  "hole_at (holes lost_carry_game) (Suc 0) = \<lparr>partnerId = None, loneWolf = False, result = Some WOLF, blind = False\<rparr>"
  "hole_at (holes lost_carry_game) (Suc (Suc 0)) = \<lparr>partnerId = None, loneWolf = True, result = Some WOLF, blind = False\<rparr>"
  by (simp_all add: lost_carry_game_def abcd_ids hole_at_def)

lemma length_filter_neq:
  "distinct bs \<Longrightarrow> q \<in> set bs \<Longrightarrow> length (filter (\<lambda>x. x \<noteq> q) bs) = length bs - 1"
proof (induction bs)
  case Nil
  then show ?case by simp
next
  case (Cons b bs)
  show ?case
  proof (cases "b = q")
    case True
    then have "q \<notin> set bs" using Cons.prems by simp
    then have "filter (\<lambda>x. x \<noteq> q) bs = bs" by (auto simp add: filter_id_conv)
    then show ?thesis using True by simp
  next
    case False
    then have "q \<in> set bs" using Cons.prems by simp
    then have "bs \<noteq> []" by auto
    then show ?thesis using False Cons \<open>q \<in> set bs\<close> by (cases bs) simp_all
  qed
qed

lemma blind_team_game_facts:
  "map player_id (players blind_team_game) = [''A'', ''B'', ''C'', ''D'']"
  "holeCount blind_team_game = 1"
  "hole_at (holes blind_team_game) 0 = \<lparr>partnerId = Some ''A'', loneWolf = False, result = Some WOLF, blind = True\<rparr>"
  "\<And>c. wagerPerPlayer (options blind_team_game) c (hole_at (holes blind_team_game) 0) = 2"
  "hole_order blind_team_game 0 = [''A'', ''B'', ''C'', ''D'']"
  by (simp_all add: blind_team_game_def abcd_ids hole_at_def wagerPerPlayer_def
      baseWagerPerPlayer_def isBlind_def hole_order_abcd)

lemma blind_solo_game_facts:
  "map player_id (players blind_solo_game) = [''A'', ''B'', ''C'', ''D'']"
  "holeCount blind_solo_game = 1"
  "hole_at (holes blind_solo_game) 0 = \<lparr>partnerId = None, loneWolf = True, result = Some WOLF, blind = True\<rparr>"
  "\<And>c. wagerPerPlayer (options blind_solo_game) c (hole_at (holes blind_solo_game) 0) = 2"
  "hole_order blind_solo_game 0 = [''A'', ''B'', ''C'', ''D'']"
  by (simp_all add: blind_solo_game_def abcd_ids hole_at_def wagerPerPlayer_def
      baseWagerPerPlayer_def isBlind_def hole_order_abcd)

lemma blind_team_game_deltas:
  "delta_of (perHole (computeScores blind_team_game) ! 0) p = share 2 [''D'', ''A''] [''B'', ''C''] p"
proof -
  note f = blind_team_game_facts
  have d: "distinct (map player_id (players blind_team_game))" by (simp add: f(1))
  have r: "result (hole_at (holes blind_team_game) 0) = Some WOLF" "WOLF \<noteq> TIE"
    by (simp_all add: f)
  have s: "sides (hole_order blind_team_game 0) (hole_at (holes blind_team_game) 0)
     = Some ([''D'', ''A''], [''B'', ''C''], ''Wolf Pack wins'')"
    by (simp add: f sides_def wolfId_of_def key_of_def)
  have "perHole (computeScores blind_team_game) ! 0 = pushed blind_team_game 0 (run blind_team_game 0)"
    by (rule computeScores_entry) (simp add: f)
  then show ?thesis
    using delta_won [OF d r s, of "run blind_team_game 0" p] by (simp add: f(4))
qed

lemma blind_solo_game_deltas:
  "delta_of (perHole (computeScores blind_solo_game) ! 0) p = share 2 [''D''] [''A'', ''B'', ''C''] p"
proof -
  note f = blind_solo_game_facts
  have d: "distinct (map player_id (players blind_solo_game))" by (simp add: f(1))
  have r: "result (hole_at (holes blind_solo_game) 0) = Some WOLF" "WOLF \<noteq> TIE"
    by (simp_all add: f)
  have s: "sides (hole_order blind_solo_game 0) (hole_at (holes blind_solo_game) 0)
     = Some ([''D''], [''A'', ''B'', ''C''], ''Lone Wolf wins'')"
    by (simp add: f sides_def wolfId_of_def key_of_def)
  have "perHole (computeScores blind_solo_game) ! 0 = pushed blind_solo_game 0 (run blind_solo_game 0)"
    by (rule computeScores_entry) (simp add: f)
  then show ?thesis
    using delta_won [OF d r s, of "run blind_solo_game 0" p] by (simp add: f(4))
qed

lemma team_win_game_v1_net: "fst (computeScores_v1 team_win_game) ''A'' = Some (Num 6)"
  by code_simp

lemma team_win_game_net: "totals (computeScores team_win_game) ''A'' = Some (Num 2)"
proof -
  note f = team_win_game_facts
  have d: "distinct (map player_id (players team_win_game))" by (simp add: f(1))
  have p: "''A'' \<in> set (map player_id (players team_win_game))" by (simp add: f(1))
  have "perHole (run team_win_game (Suc 0)) = [perHole (computeScores team_win_game) ! 0]"
    using computeScores_entry [of 0 team_win_game]
    by (simp add: f(3) run_Suc run_0 perHole_hole_step init_state_fields)
  then have "totals (run team_win_game (Suc 0)) ''A'' = Some (Num 2)"
    using run_tallies [OF d p, of "Suc 0"] by (simp add: team_win_game_deltas share_def)
  then show ?thesis by (simp add: computeScores_fields f(3))
qed

lemma lone_loss_game_facts:
  "map player_id (players lone_loss_game) = [''A'', ''B'', ''C'', ''D'']"
  "holeCount lone_loss_game = 1"
  "hole_at (holes lone_loss_game) 0 = \<lparr>partnerId = None, loneWolf = True, result = Some OTHER, blind = False\<rparr>"
  "\<And>c. wagerPerPlayer (options lone_loss_game) c (hole_at (holes lone_loss_game) 0) = 1"
  "hole_order lone_loss_game 0 = [''A'', ''B'', ''C'', ''D'']"
  by (simp_all add: lone_loss_game_def abcd_ids hole_at_def wagerPerPlayer_def
      baseWagerPerPlayer_def isBlind_def hole_order_abcd)

lemma lone_loss_game_deltas:
  "delta_of (perHole (computeScores lone_loss_game) ! 0) p = share 1 [''A'', ''B'', ''C''] [''D''] p"
proof -
  note f = lone_loss_game_facts
  have d: "distinct (map player_id (players lone_loss_game))" by (simp add: f(1))
  have r: "result (hole_at (holes lone_loss_game) 0) = Some OTHER" "OTHER \<noteq> TIE"
    by (simp_all add: f)
  have s: "sides (hole_order lone_loss_game 0) (hole_at (holes lone_loss_game) 0)
     = Some ([''A'', ''B'', ''C''], [''D''], ''Little Piggie win'')"
    by (simp add: f sides_def wolfId_of_def key_of_def)
  have "perHole (computeScores lone_loss_game) ! 0 = pushed lone_loss_game 0 (run lone_loss_game 0)"
    by (rule computeScores_entry) (simp add: f)
  then show ?thesis
    using delta_won [OF d r s, of "run lone_loss_game 0" p] by (simp add: f(4))
qed

lemma single_hole_breakdown:
  assumes "holeCount g = 1"
  shows "perHole (computeScores g) = [perHole (computeScores g) ! 0]"
proof -
  have "perHole (run g (Suc 0)) = [pushed g 0 (run g 0)]"
    by (simp add: run_Suc run_0 perHole_hole_step init_state_fields)
  then show ?thesis using assms by (simp add: computeScores_fields)
qed

section \<open>Claims\<close>

text \<open>
  C1. In a decisive hole (\<open>WOLF\<close> or \<open>OTHER\<close>) that is played alone or with a partner
  who is a player other than the Wolf, the winners and the losers partition the players,
  every winner's delta in the breakdown entry is the wager times the number of losers and
  every loser's delta is minus the wager times the number of winners. When the Wolf plays
  alone and the field wins, the Wolf is the only loser.
\<close>

theorem decisive_round_settlement:
  assumes d: "distinct (map player_id (players g))" and ne: "players g \<noteq> []"
    and i: "i < holeCount g"
    and r: "result (hole_at (holes g) i) = Some WOLF \<or> result (hole_at (holes g) i) = Some OTHER"
    and v: "loneWolf (hole_at (holes g) i) \<or>
            (\<exists>q. partnerId (hole_at (holes g) i) = Some q \<and> q \<noteq> [] \<and>
                 q \<in> set (map player_id (players g)) \<and> Some q \<noteq> wolfId_of (hole_order g i))"
  shows "\<exists>ws ls lbl.
           sides (hole_order g i) (hole_at (holes g) i) = Some (ws, ls, lbl) \<and>
           distinct ws \<and> distinct ls \<and> set ws \<inter> set ls = {} \<and>
           set ws \<union> set ls = set (map player_id (players g)) \<and>
           (\<forall>p\<in>set ws. deltaByPlayer (perHole (computeScores g) ! i) p =
                          Some (int (wager_at g i) * int (length ls))) \<and>
           (\<forall>p\<in>set ls. deltaByPlayer (perHole (computeScores g) ! i) p =
                          Some (- (int (wager_at g i) * int (length ws)))) \<and>
           (loneWolf (hole_at (holes g) i) \<and> result (hole_at (holes g) i) = Some OTHER \<longrightarrow>
              ws = butlast (hole_order g i) \<and> ls = [last (hole_order g i)])"
proof -
  let ?h = "hole_at (holes g) i" and ?o = "hole_order g i"
  let ?ids = "map player_id (players g)"
  let ?e = "perHole (computeScores g) ! i"
  have one: "?o \<noteq> []" using ne hole_order_props(3) [of g i] by auto
  have od: "distinct ?o" using d by (simp only: hole_order_props)
  have os: "set ?o = set ?ids" by (simp only: hole_order_props)
  from v have "loneWolf ?h \<or> (\<exists>q. partnerId ?h = Some q \<and> q \<noteq> [] \<and> Some q \<noteq> wolfId_of ?o)"
    by blast
  then obtain ws ls lbl where s: "sides ?o ?h = Some (ws, ls, lbl)"
    using sides_valid [OF one od] by blast
  have "loneWolf ?h \<or> (\<exists>q. partnerId ?h = Some q \<and> q \<in> set ?o)"
    using v os by auto
  then have sp: "distinct ws" "distinct ls" "set ws \<inter> set ls = {}" "set ws \<union> set ls = set ?ids"
    using sides_props [OF s od one] os by simp_all
  obtain r' where r': "result ?h = Some r'" "r' \<noteq> TIE" using r by auto
  have e: "?e = pushed g i (run g i)" using i by (rule computeScores_entry)
  have dl: "\<And>p. p \<in> set ?ids \<Longrightarrow> deltaByPlayer ?e p = Some (share (int (wager_at g i)) ws ls p)"
    using step_effect(4) [OF d, of _ i "run g i"] delta_won [OF d r' s, of "run g i"]
    by (simp add: e wager_at_def)
  have w: "\<forall>p\<in>set ws. deltaByPlayer ?e p = Some (int (wager_at g i) * int (length ls))"
  proof
    fix p assume p: "p \<in> set ws"
    then have "p \<in> set ?ids" using sp(4) by blast
    from dl [OF this] show "deltaByPlayer ?e p = Some (int (wager_at g i) * int (length ls))"
      using p by (simp add: share_def)
  qed
  have l: "\<forall>p\<in>set ls. deltaByPlayer ?e p = Some (- (int (wager_at g i) * int (length ws)))"
  proof
    fix p assume p: "p \<in> set ls"
    then have "p \<in> set ?ids" and "p \<notin> set ws" using sp(3,4) by blast+
    from dl [OF this(1)] this(2) show "deltaByPlayer ?e p = Some (- (int (wager_at g i) * int (length ws)))"
      using p by (simp add: share_def)
  qed
  have lo: "loneWolf ?h \<and> result ?h = Some OTHER \<longrightarrow> ws = butlast ?o \<and> ls = [last ?o]"
    using s sides_lone_other [OF one, of ?h] by auto
  show ?thesis using s sp w l lo by blast
qed

text \<open>
  Four players, one hole, \<open>D\<close> alone against \<open>A\<close>, \<open>B\<close>, \<open>C\<close>, wager 1 and the field
  wins: \<open>D\<close> gets \<open>-3\<close> and each of the others \<open>+1\<close>. And \<open>D\<close> with partner \<open>A\<close>
  winning against \<open>B\<close> and \<open>C\<close>: \<open>+2\<close> for \<open>A\<close> and \<open>D\<close>, \<open>-2\<close> for \<open>B\<close> and \<open>C\<close>.
\<close>

theorem decisive_round_settlement_witness:
  "distinct (map player_id (players lone_loss_game)) \<and> players lone_loss_game \<noteq> [] \<and>
   0 < holeCount lone_loss_game \<and>
   result (hole_at (holes lone_loss_game) 0) = Some OTHER \<and>
   loneWolf (hole_at (holes lone_loss_game) 0) \<and>
   wager_at lone_loss_game 0 = 1 \<and>
   map (deltaByPlayer (perHole (computeScores lone_loss_game) ! 0)) [''A'', ''B'', ''C'', ''D'']
     = [Some 1, Some 1, Some 1, Some (- 3)] \<and>
   distinct (map player_id (players team_win_game)) \<and> players team_win_game \<noteq> [] \<and>
   0 < holeCount team_win_game \<and>
   result (hole_at (holes team_win_game) 0) = Some WOLF \<and>
   \<not> loneWolf (hole_at (holes team_win_game) 0) \<and>
   partnerId (hole_at (holes team_win_game) 0) = Some ''A'' \<and>
   wolfId_of (hole_order team_win_game 0) = Some ''D'' \<and>
   wager_at team_win_game 0 = 1 \<and>
   map (deltaByPlayer (perHole (computeScores team_win_game) ! 0)) [''A'', ''B'', ''C'', ''D'']
     = [Some 2, Some (- 2), Some (- 2), Some 2]"
proof -
  let ?g = lone_loss_game
  note f = lone_loss_game_facts
  have w: "wager_at ?g 0 = 1" by (simp add: wager_at_def f(4))
  have d: "distinct (map player_id (players ?g))" by (simp add: f(1))
  have ne: "players ?g \<noteq> []" by (simp add: lone_loss_game_def abcd_def)
  have i: "0 < holeCount ?g" by (simp add: f(2))
  have r: "result (hole_at (holes ?g) 0) = Some OTHER" and lw: "loneWolf (hole_at (holes ?g) 0)"
    by (simp_all add: f(3))
  from decisive_round_settlement [OF d ne i disjI2 [OF r] disjI1 [OF lw]]
  obtain ws ls where
    wl: "ws = butlast (hole_order ?g 0)" "ls = [last (hole_order ?g 0)]" and
    dw: "\<forall>p\<in>set ws. deltaByPlayer (perHole (computeScores ?g) ! 0) p =
                          Some (int (wager_at ?g 0) * int (length ls))" and
    dl: "\<forall>p\<in>set ls. deltaByPlayer (perHole (computeScores ?g) ! 0) p =
                          Some (- (int (wager_at ?g 0) * int (length ws)))"
    using r lw by blast
  have "ws = [''A'', ''B'', ''C'']" "ls = [''D'']" using wl by (simp_all add: f(5))
  then have m: "map (deltaByPlayer (perHole (computeScores ?g) ! 0)) [''A'', ''B'', ''C'', ''D'']
     = [Some 1, Some 1, Some 1, Some (- 3)]"
    using dw dl w by simp
  let ?t = team_win_game
  note tf = team_win_game_facts
  have tw: "wager_at ?t 0 = 1" by (simp add: wager_at_def tf(5))
  have td: "distinct (map player_id (players ?t))" by (simp add: tf(1))
  have tne: "players ?t \<noteq> []" by (simp add: team_win_game_def abcd_def)
  have ti: "0 < holeCount ?t" by (simp add: tf(3))
  have tr: "result (hole_at (holes ?t) 0) = Some WOLF" and tl: "\<not> loneWolf (hole_at (holes ?t) 0)"
    and tp: "partnerId (hole_at (holes ?t) 0) = Some ''A''"
    by (simp_all add: tf(4))
  have two: "wolfId_of (hole_order ?t 0) = Some ''D''"
    by (simp add: hole_order_abcd [OF tf(2)] wolfId_of_def)
  have tv: "\<exists>q. partnerId (hole_at (holes ?t) 0) = Some q \<and> q \<noteq> [] \<and>
                 q \<in> set (map player_id (players ?t)) \<and> Some q \<noteq> wolfId_of (hole_order ?t 0)"
    using tp two by (simp add: tf(1))
  from decisive_round_settlement [OF td tne ti disjI1 [OF tr] disjI2 [OF tv]]
  obtain tws tls tlbl where
    ts: "sides (hole_order ?t 0) (hole_at (holes ?t) 0) = Some (tws, tls, tlbl)" and
    tdw: "\<forall>p\<in>set tws. deltaByPlayer (perHole (computeScores ?t) ! 0) p =
                          Some (int (wager_at ?t 0) * int (length tls))" and
    tdl: "\<forall>p\<in>set tls. deltaByPlayer (perHole (computeScores ?t) ! 0) p =
                          Some (- (int (wager_at ?t 0) * int (length tws)))"
    by blast
  have "tws = [''D'', ''A'']" "tls = [''B'', ''C'']"
    using ts team_win_game_sides by simp_all
  then have tm: "map (deltaByPlayer (perHole (computeScores ?t) ! 0)) [''A'', ''B'', ''C'', ''D'']
     = [Some 2, Some (- 2), Some (- 2), Some 2]"
    using tdw tdl tw by simp
  show ?thesis using d ne i r lw w m td tne ti tr tl tp two tw tm by blast
qed

text \<open>
  C10. For every player of a roster with distinct identifiers, the returned net is a
  number equal to won minus lost; won is the sum of the player's positive deltas over the
  breakdown, lost the sum of the magnitudes of the negative ones, and both are
  non-negative.
\<close>

theorem net_is_won_minus_lost:
  assumes "distinct (map player_id (players g))" and "p \<in> set (map player_id (players g))"
  shows "\<exists>n w l. totals (computeScores g) p = Some (Num n) \<and>
           won (computeScores g) p = Some (Num w) \<and>
           lost (computeScores g) p = Some (Num l) \<and>
           n = w - l \<and> 0 \<le> w \<and> 0 \<le> l \<and>
           w = (\<Sum>e\<leftarrow>perHole (computeScores g). max 0 (delta_of e p)) \<and>
           l = (\<Sum>e\<leftarrow>perHole (computeScores g). max 0 (- delta_of e p))"
proof -
  let ?es = "perHole (run g (holeCount g))"
  have t: "totals (run g (holeCount g)) p = Some (Num (\<Sum>e\<leftarrow>?es. delta_of e p))"
    and w: "won (run g (holeCount g)) p = Some (Num (\<Sum>e\<leftarrow>?es. max 0 (delta_of e p)))"
    and l: "lost (run g (holeCount g)) p = Some (Num (\<Sum>e\<leftarrow>?es. max 0 (- delta_of e p)))"
    using run_tallies [OF assms, of "holeCount g"] by simp_all
  have "(\<Sum>e\<leftarrow>?es. delta_of e p) =
        (\<Sum>e\<leftarrow>?es. max 0 (delta_of e p)) - (\<Sum>e\<leftarrow>?es. max 0 (- delta_of e p))"
    by (rule sum_list_pos_neg)
  moreover have "0 \<le> (\<Sum>e\<leftarrow>?es. max 0 (delta_of e p))" "0 \<le> (\<Sum>e\<leftarrow>?es. max 0 (- delta_of e p))"
    by (rule sum_list_max_nonneg)+
  ultimately show ?thesis
    using t w l by (simp add: computeScores_fields)
qed

text \<open>
  In the one-hole game that \<open>D\<close> loses alone against three, \<open>D\<close> has net \<open>-3\<close>, won 0
  and lost 3.
\<close>

theorem net_is_won_minus_lost_witness:
  "distinct (map player_id (players lone_loss_game)) \<and>
   ''D'' \<in> set (map player_id (players lone_loss_game)) \<and>
   totals (computeScores lone_loss_game) ''D'' = Some (Num (- 3)) \<and>
   won (computeScores lone_loss_game) ''D'' = Some (Num 0) \<and>
   lost (computeScores lone_loss_game) ''D'' = Some (Num 3)"
proof -
  let ?g = lone_loss_game
  note f = lone_loss_game_facts
  have d: "distinct (map player_id (players ?g))" by (simp add: f(1))
  have p: "''D'' \<in> set (map player_id (players ?g))" by (simp add: f(1))
  from net_is_won_minus_lost [OF d p]
  obtain n w l where
    t: "totals (computeScores ?g) ''D'' = Some (Num n)" and
    tw: "won (computeScores ?g) ''D'' = Some (Num w)" and
    tl: "lost (computeScores ?g) ''D'' = Some (Num l)" and
    n: "n = w - l" and
    w: "w = (\<Sum>e\<leftarrow>perHole (computeScores ?g). max 0 (delta_of e ''D''))" and
    l: "l = (\<Sum>e\<leftarrow>perHole (computeScores ?g). max 0 (- delta_of e ''D''))"
    by blast
  have b: "perHole (computeScores ?g) = [perHole (computeScores ?g) ! 0]"
    by (rule single_hole_breakdown) (simp add: f(2))
  have dl: "delta_of (perHole (computeScores ?g) ! 0) ''D'' = - 3"
    by (simp add: lone_loss_game_deltas share_def)
  have "w = max 0 (delta_of (perHole (computeScores ?g) ! 0) ''D'')"
    using w by (subst (asm) b) simp
  then have w0: "w = 0" using dl by simp
  have "l = max 0 (- delta_of (perHole (computeScores ?g) ! 0) ''D'')"
    using l by (subst (asm) b) simp
  then have l3: "l = 3" using dl by simp
  show ?thesis using d p t tw tl n w0 l3 by simp
qed

text \<open>
  C5. For a non-empty roster and every hole index, the resolver returns the identifiers
  from \<open>cut\<close> on followed by the first \<open>cut\<close> ones, \<open>cut = (N - i mod N) mod N\<close>; that is
  the right rotation by \<open>i mod N\<close> positions, a permutation of the roster; the Wolf (the
  last element) is the same for \<open>i\<close> and \<open>i + N\<close>, and with distinct identifiers the Wolves
  of \<open>N\<close> consecutive holes are pairwise different.
\<close>

theorem rotation_resolver:
  assumes "ps \<noteq> []"
  shows "rotatedOrderForHole ps i =
           drop ((length ps - i mod length ps) mod length ps) (map player_id ps) @
           take ((length ps - i mod length ps) mod length ps) (map player_id ps) \<and>
         rotatedOrderForHole ps i = right_rotate (i mod length ps) (map player_id ps) \<and>
         mset (rotatedOrderForHole ps i) = mset (map player_id ps) \<and>
         last (rotatedOrderForHole ps (i + length ps)) = last (rotatedOrderForHole ps i) \<and>
         (distinct (map player_id ps) \<longrightarrow>
            distinct (map (\<lambda>j. last (rotatedOrderForHole ps j)) [i..<i + length ps]))"
proof -
  have "rotatedOrderForHole ps i =
           drop ((length ps - i mod length ps) mod length ps) (map player_id ps) @
           take ((length ps - i mod length ps) mod length ps) (map player_id ps)"
    by (simp add: rotatedOrderForHole_def Let_def)
  moreover have "rotatedOrderForHole ps i = right_rotate (i mod length ps) (map player_id ps)"
    using assms by (rule rotated_right_rotate)
  moreover have "mset (rotatedOrderForHole ps i) = mset (map player_id ps)"
    by (rule mset_rotated)
  moreover have "last (rotatedOrderForHole ps (i + length ps)) = last (rotatedOrderForHole ps i)"
    by (simp only: rotated_period)
  moreover have "distinct (map player_id ps) \<longrightarrow>
            distinct (map (\<lambda>j. last (rotatedOrderForHole ps j)) [i..<i + length ps])"
    using last_wolves_distinct [OF _ assms] by blast
  ultimately show ?thesis by blast
qed

theorem rotation_resolver_witness:
  "abcd \<noteq> [] \<and> distinct (map player_id abcd) \<and>
   rotatedOrderForHole abcd (Suc 0) = [''D'', ''A'', ''B'', ''C''] \<and>
   right_rotate (Suc 0 mod length abcd) (map player_id abcd) = [''D'', ''A'', ''B'', ''C''] \<and>
   mset (rotatedOrderForHole abcd (Suc 0)) = mset (map player_id abcd) \<and>
   last (rotatedOrderForHole abcd (Suc 0 + length abcd)) = ''C'' \<and>
   distinct (map (\<lambda>j. last (rotatedOrderForHole abcd j)) [Suc 0..<Suc 0 + length abcd])"
proof -
  have ne: "abcd \<noteq> []" by (simp add: abcd_def)
  have d: "distinct (map player_id abcd)" by (simp add: abcd_ids)
  note t = rotation_resolver [OF ne, of "Suc 0"]
  have r: "rotatedOrderForHole abcd (Suc 0) = [''D'', ''A'', ''B'', ''C'']"
    by (rule rotated_abcd(2))
  have a: "right_rotate (Suc 0 mod length abcd) (map player_id abcd) = [''D'', ''A'', ''B'', ''C'']"
    using t r by metis
  have m: "mset (rotatedOrderForHole abcd (Suc 0)) = mset (map player_id abcd)"
    using t by blast
  have "last (rotatedOrderForHole abcd (Suc 0 + length abcd)) = last (rotatedOrderForHole abcd (Suc 0))"
    using t by blast
  then have l: "last (rotatedOrderForHole abcd (Suc 0 + length abcd)) = ''C''"
    unfolding r by simp
  have w: "distinct (map (\<lambda>j. last (rotatedOrderForHole abcd j)) [Suc 0..<Suc 0 + length abcd])"
    using t d by blast
  show ?thesis using ne d r a m l w by blast
qed

text \<open>
  C7. The loop pushes one entry for every hole of the count, whatever the holes hold. A
  hole without a result gets a \<open>NOT_SCORED\<close> entry with a zero delta for every player and
  leaves the carry and the three running totals as they were; a won team hole whose
  partner is missing, empty or the Wolf gets the same entry and leaves the totals as they
  were.
\<close>

theorem unscored_round:
  "length (perHole (computeScores g)) = holeCount g \<and>
   (\<forall>i<holeCount g.
      (result (hole_at (holes g) i) = None \<longrightarrow>
         status (perHole (computeScores g) ! i) = ''NOT_SCORED'' \<and>
         (\<forall>p. deltaByPlayer (perHole (computeScores g) ! i) p =
               (if p \<in> set (map player_id (players g)) then Some 0 else None)) \<and>
         carryPerPlayer (run g (Suc i)) = carryPerPlayer (run g i) \<and>
         totals (run g (Suc i)) = totals (run g i) \<and>
         won (run g (Suc i)) = won (run g i) \<and>
         lost (run g (Suc i)) = lost (run g i)) \<and>
      ((result (hole_at (holes g) i) = Some WOLF \<or> result (hole_at (holes g) i) = Some OTHER) \<and>
       \<not> loneWolf (hole_at (holes g) i) \<and>
       (partnerId (hole_at (holes g) i) = None \<or> partnerId (hole_at (holes g) i) = Some [] \<or>
        partnerId (hole_at (holes g) i) = wolfId_of (hole_order g i)) \<longrightarrow>
         status (perHole (computeScores g) ! i) = ''NOT_SCORED'' \<and>
         (\<forall>p. deltaByPlayer (perHole (computeScores g) ! i) p =
               (if p \<in> set (map player_id (players g)) then Some 0 else None)) \<and>
         totals (run g (Suc i)) = totals (run g i) \<and>
         won (run g (Suc i)) = won (run g i) \<and>
         lost (run g (Suc i)) = lost (run g i)))"
proof (intro conjI allI impI)
  show "length (perHole (computeScores g)) = holeCount g"
    by (simp add: computeScores_fields length_perHole_run)
next
  fix i assume i: "i < holeCount g" and r: "result (hole_at (holes g) i) = None"
  have e: "perHole (computeScores g) ! i = not_scored_entry i (map player_id (players g))"
    using computeScores_entry [OF i] pushed_unscored [OF r] by simp
  have s: "run g (Suc i) = push_entry (not_scored_entry i (map player_id (players g))) (run g i)"
    using hole_step_unscored [OF r] by (simp add: run_Suc)
  show "status (perHole (computeScores g) ! i) = ''NOT_SCORED''"
    by (simp add: e not_scored_entry_fields)
  show "\<And>p. deltaByPlayer (perHole (computeScores g) ! i) p =
               (if p \<in> set (map player_id (players g)) then Some 0 else None)"
    by (simp only: e not_scored_entry_fields)
  show "carryPerPlayer (run g (Suc i)) = carryPerPlayer (run g i)"
    "totals (run g (Suc i)) = totals (run g i)"
    "won (run g (Suc i)) = won (run g i)"
    "lost (run g (Suc i)) = lost (run g i)"
    by (simp_all only: s quiet_step_fields)
next
  fix i assume i: "i < holeCount g"
    and m: "(result (hole_at (holes g) i) = Some WOLF \<or> result (hole_at (holes g) i) = Some OTHER) \<and>
       \<not> loneWolf (hole_at (holes g) i) \<and>
       (partnerId (hole_at (holes g) i) = None \<or> partnerId (hole_at (holes g) i) = Some [] \<or>
        partnerId (hole_at (holes g) i) = wolfId_of (hole_order g i))"
  then obtain r where r: "result (hole_at (holes g) i) = Some r" "r \<noteq> TIE" by auto
  have sd: "sides (hole_order g i) (hole_at (holes g) i) = None"
    using m by (intro sides_invalid) simp_all
  have e: "perHole (computeScores g) ! i = not_scored_entry i (map player_id (players g))"
    using computeScores_entry [OF i] pushed_invalid [OF r sd] by simp
  have s: "run g (Suc i) = push_entry (not_scored_entry i (map player_id (players g)))
             (if pushTies (options g) then (run g i)\<lparr>carryPerPlayer := 0\<rparr> else run g i)"
    using hole_step_invalid [OF r sd] by (simp add: run_Suc)
  show "status (perHole (computeScores g) ! i) = ''NOT_SCORED''"
    by (simp add: e not_scored_entry_fields)
  show "\<And>p. deltaByPlayer (perHole (computeScores g) ! i) p =
               (if p \<in> set (map player_id (players g)) then Some 0 else None)"
    by (simp only: e not_scored_entry_fields)
  show "totals (run g (Suc i)) = totals (run g i)"
    "won (run g (Suc i)) = won (run g i)"
    "lost (run g (Suc i)) = lost (run g i)"
    by (simp_all add: s quiet_step_fields)
qed

theorem unscored_round_witness:
  "Suc 0 < holeCount gap_game \<and> result (hole_at (holes gap_game) (Suc 0)) = None \<and>
   Suc (Suc 0) < holeCount gap_game \<and> result (hole_at (holes gap_game) (Suc (Suc 0))) = Some WOLF \<and>
   \<not> loneWolf (hole_at (holes gap_game) (Suc (Suc 0))) \<and>
   partnerId (hole_at (holes gap_game) (Suc (Suc 0))) = None \<and>
   length (perHole (computeScores gap_game)) = 3 \<and>
   status (perHole (computeScores gap_game) ! Suc 0) = ''NOT_SCORED'' \<and>
   map (deltaByPlayer (perHole (computeScores gap_game) ! Suc 0)) [''A'', ''B'', ''C'', ''D'', ''E'']
     = [Some 0, Some 0, Some 0, Some 0, None] \<and>
   carryPerPlayer (run gap_game (Suc (Suc 0))) = 1 \<and>
   totals (run gap_game (Suc (Suc 0))) = totals (run gap_game (Suc 0)) \<and>
   won (run gap_game (Suc (Suc 0))) = won (run gap_game (Suc 0)) \<and>
   lost (run gap_game (Suc (Suc 0))) = lost (run gap_game (Suc 0)) \<and>
   status (perHole (computeScores gap_game) ! Suc (Suc 0)) = ''NOT_SCORED'' \<and>
   totals (run gap_game (Suc (Suc (Suc 0)))) = totals (run gap_game (Suc (Suc 0)))"
proof -
  let ?g = gap_game
  note f = gap_game_facts
  note u = unscored_round [of ?g]
  have i1: "Suc 0 < holeCount ?g" and i2: "Suc (Suc 0) < holeCount ?g" by (simp_all add: f)
  have r1: "result (hole_at (holes ?g) (Suc 0)) = None" by (simp add: f)
  have r2: "result (hole_at (holes ?g) (Suc (Suc 0))) = Some WOLF"
    "\<not> loneWolf (hole_at (holes ?g) (Suc (Suc 0)))"
    "partnerId (hole_at (holes ?g) (Suc (Suc 0))) = None" by (simp_all add: f)
  have len: "length (perHole (computeScores ?g)) = 3" using u by (simp add: f)
  have a: "status (perHole (computeScores ?g) ! Suc 0) = ''NOT_SCORED''"
    and b: "\<forall>p. deltaByPlayer (perHole (computeScores ?g) ! Suc 0) p =
               (if p \<in> set (map player_id (players ?g)) then Some 0 else None)"
    and c: "carryPerPlayer (run ?g (Suc (Suc 0))) = carryPerPlayer (run ?g (Suc 0))"
    and t: "totals (run ?g (Suc (Suc 0))) = totals (run ?g (Suc 0))"
      "won (run ?g (Suc (Suc 0))) = won (run ?g (Suc 0))"
      "lost (run ?g (Suc (Suc 0))) = lost (run ?g (Suc 0))"
    using u i1 r1 by blast+
  have a2: "status (perHole (computeScores ?g) ! Suc (Suc 0)) = ''NOT_SCORED''"
    and t2: "totals (run ?g (Suc (Suc (Suc 0)))) = totals (run ?g (Suc (Suc 0)))"
    using u i2 r2 by blast+
  have "carryPerPlayer (run ?g (Suc 0)) = 1"
    by (simp add: run_carry_Suc run_carry_0 f)
  then have c1: "carryPerPlayer (run ?g (Suc (Suc 0))) = 1" using c by simp
  have m: "map (deltaByPlayer (perHole (computeScores ?g) ! Suc 0)) [''A'', ''B'', ''C'', ''D'', ''E'']
     = [Some 0, Some 0, Some 0, Some 0, None]"
    using b by (simp add: f)
  show ?thesis using i1 i2 r1 r2 len a m c1 t a2 t2 by blast
qed

text \<open>
  C3. With pushed ties, a tied hole raises the carry by exactly one, whatever its blind
  flag, and its entry is \<open>TIE\<close> with a zero delta for every player; the wager of a
  decisive hole is the carry plus one, plus one more when Blind Wolf is enabled and the
  hole is flagged blind, and the carry is zero after it. So without Blind Wolf, two ties
  followed by a decisive hole give that hole the carry before the ties plus three, and
  leave a carry of zero.
\<close>

theorem tie_carry_and_wager:
  assumes pt: "pushTies (options g)"
  shows "(i < holeCount g \<and> result (hole_at (holes g) i) = Some TIE \<longrightarrow>
            carryPerPlayer (run g (Suc i)) = carryPerPlayer (run g i) + 1 \<and>
            status (perHole (computeScores g) ! i) = ''TIE'' \<and>
            (\<forall>p. deltaByPlayer (perHole (computeScores g) ! i) p =
                  (if p \<in> set (map player_id (players g)) then Some 0 else None)) \<and>
            totals (run g (Suc i)) = totals (run g i)) \<and>
         (result (hole_at (holes g) i) = Some WOLF \<or> result (hole_at (holes g) i) = Some OTHER \<longrightarrow>
            wager_at g i = carryPerPlayer (run g i) + 1 +
                (if blindWolf (options g) \<and> blind (hole_at (holes g) i) then 1 else 0) \<and>
            carryPerPlayer (run g (Suc i)) = 0) \<and>
         (\<not> blindWolf (options g) \<and>
          result (hole_at (holes g) i) = Some TIE \<and> result (hole_at (holes g) (i + 1)) = Some TIE \<and>
          (result (hole_at (holes g) (i + 2)) = Some WOLF \<or>
           result (hole_at (holes g) (i + 2)) = Some OTHER) \<longrightarrow>
            wager_at g (i + 2) = carryPerPlayer (run g i) + 3 \<and>
            carryPerPlayer (run g (i + 3)) = 0)"
proof (intro conjI impI)
  assume a: "i < holeCount g \<and> result (hole_at (holes g) i) = Some TIE"
  then have i: "i < holeCount g" and r: "result (hole_at (holes g) i) = Some TIE" by simp_all
  have e: "perHole (computeScores g) ! i = tie_entry i (map player_id (players g))"
    using computeScores_entry [OF i] pushed_tie [OF r] by simp
  show "carryPerPlayer (run g (Suc i)) = carryPerPlayer (run g i) + 1"
    using pt r by (simp add: run_carry_Suc)
  show "status (perHole (computeScores g) ! i) = ''TIE''"
    by (simp add: e tie_entry_fields)
  show "\<forall>p. deltaByPlayer (perHole (computeScores g) ! i) p =
                  (if p \<in> set (map player_id (players g)) then Some 0 else None)"
    by (simp only: e tie_entry_fields) simp
  show "totals (run g (Suc i)) = totals (run g i)"
    using pt by (simp add: run_Suc hole_step_tie [OF r] push_entry_def)
next
  assume r: "result (hole_at (holes g) i) = Some WOLF \<or> result (hole_at (holes g) i) = Some OTHER"
  show "wager_at g i = carryPerPlayer (run g i) + 1 +
                (if blindWolf (options g) \<and> blind (hole_at (holes g) i) then 1 else 0)"
    using pt by (simp add: wager_at_def wagerPerPlayer_def baseWagerPerPlayer_def isBlind_def)
  show "carryPerPlayer (run g (Suc i)) = 0"
    using pt r by (auto simp add: run_carry_Suc)
next
  assume a: "\<not> blindWolf (options g) \<and>
          result (hole_at (holes g) i) = Some TIE \<and> result (hole_at (holes g) (i + 1)) = Some TIE \<and>
          (result (hole_at (holes g) (i + 2)) = Some WOLF \<or>
           result (hole_at (holes g) (i + 2)) = Some OTHER)"
  have c1: "carryPerPlayer (run g (Suc i)) = carryPerPlayer (run g i) + 1"
    using pt a by (simp add: run_carry_Suc)
  have c2: "carryPerPlayer (run g (Suc (Suc i))) = carryPerPlayer (run g i) + 2"
    using pt a c1 by (simp add: run_carry_Suc [of g "Suc i"])
  have s: "i + 2 = Suc (Suc i)" "i + 3 = Suc (Suc (Suc i))" by simp_all
  show "wager_at g (i + 2) = carryPerPlayer (run g i) + 3"
    using pt a c2 unfolding s
    by (simp add: wager_at_def wagerPerPlayer_def baseWagerPerPlayer_def isBlind_def)
  show "carryPerPlayer (run g (i + 3)) = 0"
    using pt a unfolding s by (auto simp add: run_carry_Suc [of g "Suc (Suc i)"])
qed

text \<open>
  Two ties, the second flagged blind, then \<open>B\<close> wins alone against three: the wager is 3,
  \<open>B\<close> gets \<open>+9\<close>, the others \<open>-3\<close> each, and the carry is back to zero.
\<close>

theorem tie_carry_and_wager_witness:
  "pushTies (options tie_tie_win_game) \<and> \<not> blindWolf (options tie_tie_win_game) \<and>
   result (hole_at (holes tie_tie_win_game) 0) = Some TIE \<and>
   result (hole_at (holes tie_tie_win_game) (Suc 0)) = Some TIE \<and>
   blind (hole_at (holes tie_tie_win_game) (Suc 0)) \<and>
   result (hole_at (holes tie_tie_win_game) (Suc (Suc 0))) = Some WOLF \<and>
   carryPerPlayer (run tie_tie_win_game 0) = 0 \<and>
   carryPerPlayer (run tie_tie_win_game (Suc 0)) = 1 \<and>
   carryPerPlayer (run tie_tie_win_game (Suc (Suc 0))) = 2 \<and>
   wager_at tie_tie_win_game (Suc (Suc 0)) = 3 \<and>
   carryPerPlayer (run tie_tie_win_game (Suc (Suc (Suc 0)))) = 0 \<and>
   map (delta_of (perHole (computeScores tie_tie_win_game) ! Suc (Suc 0))) [''A'', ''B'', ''C'', ''D'']
     = [- 3, 9, - 3, - 3]"
proof -
  let ?g = tie_tie_win_game
  note f = tie_tie_win_game_facts
  have pt: "pushTies (options ?g)" and bw: "\<not> blindWolf (options ?g)" by (simp_all add: f)
  have r: "result (hole_at (holes ?g) 0) = Some TIE"
    "result (hole_at (holes ?g) (Suc 0)) = Some TIE"
    "blind (hole_at (holes ?g) (Suc 0))"
    "result (hole_at (holes ?g) (Suc (Suc 0))) = Some WOLF"
    by (simp_all add: f)
  have i: "0 < holeCount ?g" "Suc 0 < holeCount ?g" "Suc (Suc 0) < holeCount ?g" by (simp_all add: f)
  have c0: "carryPerPlayer (run ?g 0) = 0" by (rule run_carry_0)
  have c1: "carryPerPlayer (run ?g (Suc 0)) = 1"
    using tie_carry_and_wager [OF pt, of 0] i(1) r(1) c0 by simp
  have c2: "carryPerPlayer (run ?g (Suc (Suc 0))) = 2"
    using tie_carry_and_wager [OF pt, of "Suc 0"] i(2) r(2) c1 by simp
  have "wager_at ?g (0 + 2) = carryPerPlayer (run ?g 0) + 3 \<and> carryPerPlayer (run ?g (0 + 3)) = 0"
    using tie_carry_and_wager [OF pt, of 0] bw r by simp
  then have w: "wager_at ?g (Suc (Suc 0)) = 3" and c3: "carryPerPlayer (run ?g (Suc (Suc (Suc 0)))) = 0"
    using c0 by (simp_all add: numeral_2_eq_2 numeral_3_eq_3)
  have d: "distinct (map player_id (players ?g))" by (simp add: f)
  have pl: "players ?g = abcd" by (simp add: tie_tie_win_game_def)
  have s: "sides (hole_order ?g (Suc (Suc 0))) (hole_at (holes ?g) (Suc (Suc 0)))
             = Some ([''B''], [''C'', ''D'', ''A''], ''Lone Wolf wins'')"
    by (simp add: hole_order_abcd [OF pl] f sides_def wolfId_of_def key_of_def)
  have e: "perHole (computeScores ?g) ! Suc (Suc 0) = pushed ?g (Suc (Suc 0)) (run ?g (Suc (Suc 0)))"
    using i(3) by (rule computeScores_entry)
  have "\<And>p. delta_of (perHole (computeScores ?g) ! Suc (Suc 0)) p = share 3 [''B''] [''C'', ''D'', ''A''] p"
    using delta_won [OF d r(4) _ s, of "run ?g (Suc (Suc 0))"] w
    by (simp add: e wager_at_def)
  then have m: "map (delta_of (perHole (computeScores ?g) ! Suc (Suc 0))) [''A'', ''B'', ''C'', ''D'']
     = [- 3, 9, - 3, - 3]"
    by (simp add: share_def)
  show ?thesis using pt bw r c0 c1 c2 w c3 m by blast
qed

text \<open>
  C8. The summary is a function of what the engine reads: two games with the same player
  identifiers, options and hole count that agree on the holes below the count have the
  same summary. And when the holes do not exceed the count, appending holes without a
  result and raising the count leaves every player's net, won and lost totals as they
  were.
\<close>

theorem deterministic_and_stable_under_unscored_rounds:
  "(map player_id (players g1) = map player_id (players g2) \<and> options g1 = options g2 \<and>
    holeCount g1 = holeCount g2 \<and>
    (\<forall>i<holeCount g1. hole_at (holes g1) i = hole_at (holes g2) i) \<longrightarrow>
      computeScores g1 = computeScores g2) \<and>
   (length (holes g) \<le> holeCount g \<and> holeCount g \<le> n \<and> (\<forall>h\<in>set extra. result h = None) \<longrightarrow>
      totals (computeScores (g\<lparr>holes := holes g @ extra, holeCount := n\<rparr>)) = totals (computeScores g) \<and>
      won (computeScores (g\<lparr>holes := holes g @ extra, holeCount := n\<rparr>)) = won (computeScores g) \<and>
      lost (computeScores (g\<lparr>holes := holes g @ extra, holeCount := n\<rparr>)) = lost (computeScores g))"
proof (intro conjI impI)
  assume "map player_id (players g1) = map player_id (players g2) \<and> options g1 = options g2 \<and>
    holeCount g1 = holeCount g2 \<and>
    (\<forall>i<holeCount g1. hole_at (holes g1) i = hole_at (holes g2) i)"
  then show "computeScores g1 = computeScores g2"
    by (intro computeScores_cong) simp_all
next
  let ?g = "g\<lparr>holes := holes g @ extra, holeCount := n\<rparr>"
  let ?L = "length (holes g)"
  assume a: "length (holes g) \<le> holeCount g \<and> holeCount g \<le> n \<and> (\<forall>h\<in>set extra. result h = None)"
  have same: "run ?g ?L = run g ?L"
    by (rule run_cong) (simp_all add: hole_at_append_old)
  have "\<forall>i. ?L \<le> i \<and> i < n \<longrightarrow> result (hole_at (holes ?g) i) = None"
    using a by (simp add: hole_at_append_new)
  moreover have "?L \<le> n" using a by simp
  ultimately have new: "totals (run ?g n) = totals (run ?g ?L) \<and> won (run ?g n) = won (run ?g ?L) \<and>
         lost (run ?g n) = lost (run ?g ?L) \<and> carryPerPlayer (run ?g n) = carryPerPlayer (run ?g ?L)"
    by (rule run_unscored_tail)
  have "\<forall>i. ?L \<le> i \<and> i < holeCount g \<longrightarrow> result (hole_at (holes g) i) = None"
    by (simp add: hole_at_beyond)
  moreover have "?L \<le> holeCount g" using a by simp
  ultimately have old: "totals (run g (holeCount g)) = totals (run g ?L) \<and>
         won (run g (holeCount g)) = won (run g ?L) \<and>
         lost (run g (holeCount g)) = lost (run g ?L) \<and>
         carryPerPlayer (run g (holeCount g)) = carryPerPlayer (run g ?L)"
    by (rule run_unscored_tail)
  show "totals (computeScores ?g) = totals (computeScores g)"
    "won (computeScores ?g) = won (computeScores g)"
    "lost (computeScores ?g) = lost (computeScores g)"
    using new old same by (simp_all add: computeScores_fields)
qed

theorem deterministic_and_stable_under_unscored_rounds_witness:
  "map player_id (players (tie_tie_win_game\<lparr>players := map (\<lambda>p. p\<lparr>name := ''Z''\<rparr>) abcd\<rparr>))
     = map player_id (players tie_tie_win_game) \<and>
   computeScores (tie_tie_win_game\<lparr>players := map (\<lambda>p. p\<lparr>name := ''Z''\<rparr>) abcd\<rparr>)
     = computeScores tie_tie_win_game \<and>
   length (holes tie_tie_win_game) \<le> holeCount tie_tie_win_game \<and>
   holeCount tie_tie_win_game \<le> 5 \<and>
   totals (computeScores (tie_tie_win_game\<lparr>holes := holes tie_tie_win_game @
       [\<lparr>partnerId = Some ''A'', loneWolf = False, result = None, blind = True\<rparr>, empty_hole],
       holeCount := 5\<rparr>)) = totals (computeScores tie_tie_win_game) \<and>
   won (computeScores (tie_tie_win_game\<lparr>holes := holes tie_tie_win_game @
       [\<lparr>partnerId = Some ''A'', loneWolf = False, result = None, blind = True\<rparr>, empty_hole],
       holeCount := 5\<rparr>)) = won (computeScores tie_tie_win_game) \<and>
   lost (computeScores (tie_tie_win_game\<lparr>holes := holes tie_tie_win_game @
       [\<lparr>partnerId = Some ''A'', loneWolf = False, result = None, blind = True\<rparr>, empty_hole],
       holeCount := 5\<rparr>)) = lost (computeScores tie_tie_win_game)"
proof -
  let ?g = tie_tie_win_game
  let ?g2 = "?g\<lparr>players := map (\<lambda>p. p\<lparr>name := ''Z''\<rparr>) abcd\<rparr>"
  let ?extra = "[\<lparr>partnerId = Some ''A'', loneWolf = False, result = None, blind = True\<rparr>, empty_hole]"
  note t = deterministic_and_stable_under_unscored_rounds [of ?g2 ?g ?g 5 ?extra]
  have ids: "map player_id (players ?g2) = map player_id (players ?g)"
    by (simp add: tie_tie_win_game_def abcd_def)
  have "options ?g2 = options ?g" "holeCount ?g2 = holeCount ?g"
    "\<forall>i<holeCount ?g2. hole_at (holes ?g2) i = hole_at (holes ?g) i"
    by simp_all
  then have eq: "computeScores ?g2 = computeScores ?g" using t ids by blast
  have len: "length (holes ?g) \<le> holeCount ?g" "holeCount ?g \<le> 5"
    by (simp_all add: tie_tie_win_game_def)
  have ex: "\<forall>h\<in>set ?extra. result h = None" by (simp add: empty_hole_def)
  show ?thesis using t ids eq len ex by blast
qed

text \<open>
  C4. For a roster with distinct identifiers and holes whose partner, when set, is one of
  the players, the deltas of every breakdown entry (decisive or not) sum to zero over the
  players, the entry has a delta for exactly the players, and the net totals returned sum
  to zero over the players.
\<close>

theorem deltas_and_nets_sum_to_zero:
  assumes d: "distinct (map player_id (players g))"
    and v: "\<forall>i<holeCount g. \<forall>q. partnerId (hole_at (holes g) i) = Some q \<longrightarrow>
              q \<in> set (map player_id (players g))"
  shows "(\<forall>i<holeCount g.
            (\<Sum>p\<leftarrow>map player_id (players g). delta_of (perHole (computeScores g) ! i) p) = 0 \<and>
            dom (deltaByPlayer (perHole (computeScores g) ! i)) = set (map player_id (players g))) \<and>
         js_sum (map (totals (computeScores g)) (map player_id (players g))) = Num 0"
proof
  show "\<forall>i<holeCount g.
            (\<Sum>p\<leftarrow>map player_id (players g). delta_of (perHole (computeScores g) ! i) p) = 0 \<and>
            dom (deltaByPlayer (perHole (computeScores g) ! i)) = set (map player_id (players g))"
  proof (intro allI impI)
    fix i assume i: "i < holeCount g"
    then have "\<forall>q. partnerId (hole_at (holes g) i) = Some q \<longrightarrow>
              q \<in> set (map player_id (players g))" using v by simp
    from pushed_zero_sum [OF d this, of "run g i"]
    show "(\<Sum>p\<leftarrow>map player_id (players g). delta_of (perHole (computeScores g) ! i) p) = 0 \<and>
            dom (deltaByPlayer (perHole (computeScores g) ! i)) = set (map player_id (players g))"
      by (simp only: computeScores_entry [OF i])
  qed
next
  let ?ids = "map player_id (players g)"
  let ?f = "\<lambda>p. \<Sum>e\<leftarrow>perHole (run g (holeCount g)). delta_of e p"
  have "\<And>p. p \<in> set ?ids \<Longrightarrow> totals (computeScores g) p = Some (Num (?f p))"
    using run_tallies [OF d, of _ "holeCount g"] by (simp add: computeScores_fields)
  then have "map (totals (computeScores g)) ?ids = map (\<lambda>p. Some (Num (?f p))) ?ids"
    by (intro map_cong) simp_all
  then have "js_sum (map (totals (computeScores g)) ?ids) = Num (\<Sum>p\<leftarrow>?ids. ?f p)"
    by (simp only: js_sum_nums)
  then show "js_sum (map (totals (computeScores g)) ?ids) = Num 0"
    using run_zero_sum [OF d v] by simp
qed

text \<open>
  The Wolf \<open>D\<close> and partner \<open>A\<close> win against \<open>B\<close> and \<open>C\<close> at wager 1: \<open>+2\<close> for each
  winner, \<open>-2\<close> for each loser.
\<close>

theorem deltas_and_nets_sum_to_zero_witness:
  "distinct (map player_id (players team_win_game)) \<and>
   holeCount team_win_game = 1 \<and>
   partnerId (hole_at (holes team_win_game) 0) = Some ''A'' \<and>
   ''A'' \<in> set (map player_id (players team_win_game)) \<and>
   map (delta_of (perHole (computeScores team_win_game) ! 0)) [''A'', ''B'', ''C'', ''D'']
     = [2, - 2, - 2, 2] \<and>
   (\<Sum>p\<leftarrow>map player_id (players team_win_game).
       delta_of (perHole (computeScores team_win_game) ! 0) p) = 0 \<and>
   dom (deltaByPlayer (perHole (computeScores team_win_game) ! 0)) = {''A'', ''B'', ''C'', ''D''} \<and>
   js_sum (map (totals (computeScores team_win_game)) (map player_id (players team_win_game))) = Num 0"
proof -
  let ?g = team_win_game
  note f = team_win_game_facts
  have d: "distinct (map player_id (players ?g))" by (simp add: f(1))
  have v: "\<forall>i<holeCount ?g. \<forall>q. partnerId (hole_at (holes ?g) i) = Some q \<longrightarrow>
              q \<in> set (map player_id (players ?g))"
    by (simp add: f(1,3,4))
  note z = deltas_and_nets_sum_to_zero [OF d v]
  have i: "0 < holeCount ?g" by (simp add: f)
  have m: "map (delta_of (perHole (computeScores ?g) ! 0)) [''A'', ''B'', ''C'', ''D''] = [2, - 2, - 2, 2]"
    by (simp add: team_win_game_deltas share_def)
  have s: "(\<Sum>p\<leftarrow>map player_id (players ?g). delta_of (perHole (computeScores ?g) ! 0) p) = 0"
    using z i by blast
  have "dom (deltaByPlayer (perHole (computeScores ?g) ! 0)) = set (map player_id (players ?g))"
    using z i by blast
  then have dm: "dom (deltaByPlayer (perHole (computeScores ?g) ! 0)) = {''A'', ''B'', ''C'', ''D''}"
    by (simp add: f(1))
  have t: "js_sum (map (totals (computeScores ?g)) (map player_id (players ?g))) = Num 0"
    using z by blast
  have h: "holeCount ?g = 1" "partnerId (hole_at (holes ?g) 0) = Some ''A''"
    "''A'' \<in> set (map player_id (players ?g))"
    by (simp_all add: f(1,3,4))
  show ?thesis using d h m s dm t by blast
qed

text \<open>
  C2. The claim is that a decisive team hole whose partner is missing or is the Wolf is
  \<open>NOT_SCORED\<close> and leaves the carry alone. The loop clears the carry before it looks at
  the partner: after a pushed tie, a won team hole without a partner is \<open>NOT_SCORED\<close>, the
  carry of 1 is gone, and the next hole is played at wager 1 instead of 2.
\<close>

theorem invalid_partner_clears_carry:
  "pushTies (options lost_carry_game) \<and>
   result (hole_at (holes lost_carry_game) (Suc 0)) = Some WOLF \<and>
   \<not> loneWolf (hole_at (holes lost_carry_game) (Suc 0)) \<and>
   partnerId (hole_at (holes lost_carry_game) (Suc 0)) = None \<and>
   status (perHole (computeScores lost_carry_game) ! Suc 0) = ''NOT_SCORED'' \<and>
   carryPerPlayer (run lost_carry_game (Suc 0)) = 1 \<and>
   carryPerPlayer (run lost_carry_game (Suc (Suc 0))) = 0 \<and>
   wager_at lost_carry_game (Suc (Suc 0)) = 1 \<and>
   map (delta_of (perHole (computeScores lost_carry_game) ! Suc (Suc 0))) [''A'', ''B'', ''C'', ''D'']
     = [- 1, 3, - 1, - 1]"
proof -
  let ?g = lost_carry_game
  note f = lost_carry_game_facts
  have h: "pushTies (options ?g)" "result (hole_at (holes ?g) (Suc 0)) = Some WOLF"
    "\<not> loneWolf (hole_at (holes ?g) (Suc 0))" "partnerId (hole_at (holes ?g) (Suc 0)) = None"
    by (simp_all add: f)
  have sd: "sides (hole_order ?g (Suc 0)) (hole_at (holes ?g) (Suc 0)) = None"
    using h by (intro sides_invalid) simp_all
  have "perHole (computeScores ?g) ! Suc 0 = pushed ?g (Suc 0) (run ?g (Suc 0))"
    by (rule computeScores_entry) (simp add: f)
  then have st: "status (perHole (computeScores ?g) ! Suc 0) = ''NOT_SCORED''"
    using pushed_invalid [OF h(2) _ sd] by (simp add: not_scored_entry_fields)
  have c1: "carryPerPlayer (run ?g (Suc 0)) = 1"
    by (simp add: run_carry_Suc run_carry_0 f)
  have c2: "carryPerPlayer (run ?g (Suc (Suc 0))) = 0"
    by (simp add: run_carry_Suc [of ?g "Suc 0"] f)
  have w: "wager_at ?g (Suc (Suc 0)) = 1"
    by (simp add: wager_at_def c2 f wagerPerPlayer_def baseWagerPerPlayer_def isBlind_def)
  have d: "distinct (map player_id (players ?g))" by (simp add: f)
  have pl: "players ?g = abcd" by (simp add: lost_carry_game_def)
  have r: "result (hole_at (holes ?g) (Suc (Suc 0))) = Some WOLF" by (simp add: f)
  have s: "sides (hole_order ?g (Suc (Suc 0))) (hole_at (holes ?g) (Suc (Suc 0)))
             = Some ([''B''], [''C'', ''D'', ''A''], ''Lone Wolf wins'')"
    by (simp add: hole_order_abcd [OF pl] f sides_def wolfId_of_def key_of_def)
  have e: "perHole (computeScores ?g) ! Suc (Suc 0) = pushed ?g (Suc (Suc 0)) (run ?g (Suc (Suc 0)))"
    by (rule computeScores_entry) (simp add: f)
  have "\<And>p. delta_of (perHole (computeScores ?g) ! Suc (Suc 0)) p = share 1 [''B''] [''C'', ''D'', ''A''] p"
    using delta_won [OF d r _ s, of "run ?g (Suc (Suc 0))"] w
    by (simp add: e wager_at_def)
  then have m: "map (delta_of (perHole (computeScores ?g) ! Suc (Suc 0))) [''A'', ''B'', ''C'', ''D'']
     = [- 1, 3, - 1, - 1]"
    by (simp add: share_def)
  show ?thesis using h st c1 c2 w m by blast
qed

text \<open>
  C6, as amended. The engine decides between solo and team play from the Lone Wolf flag
  alone; the blind flag only adds the surcharge to the wager when Blind Wolf is enabled. A
  decisive hole flagged blind but not Lone Wolf, whose partner is a player other than the
  Wolf, is scored as team play: the partner gets the Wolf's delta, the wager times the
  number of the other players, with the sign of the result, and each other player gets
  twice the wager with the opposite sign. With the partner missing, empty or the Wolf the
  hole is \<open>NOT_SCORED\<close> with zero deltas.
\<close>

theorem blind_flag_keeps_team_play:
  assumes d: "distinct (map player_id (players g))" and ne: "players g \<noteq> []"
    and i: "i < holeCount g"
    and r: "result (hole_at (holes g) i) = Some WOLF \<or> result (hole_at (holes g) i) = Some OTHER"
    and b: "blind (hole_at (holes g) i)" and nl: "\<not> loneWolf (hole_at (holes g) i)"
  shows "wager_at g i = (if pushTies (options g) then carryPerPlayer (run g i) else 0) + 1 +
                        (if blindWolf (options g) then 1 else 0) \<and>
         (\<forall>q. partnerId (hole_at (holes g) i) = Some q \<and> q \<noteq> [] \<and>
               q \<noteq> last (hole_order g i) \<and> q \<in> set (map player_id (players g)) \<longrightarrow>
            deltaByPlayer (perHole (computeScores g) ! i) q =
              deltaByPlayer (perHole (computeScores g) ! i) (last (hole_order g i)) \<and>
            deltaByPlayer (perHole (computeScores g) ! i) (last (hole_order g i)) =
              Some ((if result (hole_at (holes g) i) = Some WOLF then 1 else - 1) *
                    (int (wager_at g i) * int (length (players g) - 2))) \<and>
            (\<forall>p\<in>set (map player_id (players g)). p \<noteq> q \<and> p \<noteq> last (hole_order g i) \<longrightarrow>
               deltaByPlayer (perHole (computeScores g) ! i) p =
                 Some ((if result (hole_at (holes g) i) = Some WOLF then - 1 else 1) *
                       (int (wager_at g i) * 2)))) \<and>
         (partnerId (hole_at (holes g) i) = None \<or> partnerId (hole_at (holes g) i) = Some [] \<or>
          partnerId (hole_at (holes g) i) = Some (last (hole_order g i)) \<longrightarrow>
            status (perHole (computeScores g) ! i) = ''NOT_SCORED'' \<and>
            (\<forall>p\<in>set (map player_id (players g)).
               deltaByPlayer (perHole (computeScores g) ! i) p = Some 0))"
proof (intro conjI allI impI)
  let ?h = "hole_at (holes g) i" and ?o = "hole_order g i"
  let ?ids = "map player_id (players g)"
  let ?e = "perHole (computeScores g) ! i"
  have one: "?o \<noteq> []" using ne hole_order_props(3) [of g i] by auto
  have od: "distinct ?o" using d by (simp only: hole_order_props)
  have os: "set ?o = set ?ids" by (simp only: hole_order_props)
  have ol: "length ?o = length (players g)" by (simp only: hole_order_props)
  obtain bs w where o: "?o = bs @ [w]"
    using one by (metis append_butlast_last_id)
  then have w: "w \<notin> set bs" and dbs: "distinct bs" and lw: "last ?o = w" using od by simp_all
  have wid: "wolfId_of ?o = Some w" unfolding o by (simp add: wolfId_of_def)
  obtain r' where r': "result ?h = Some r'" "r' \<noteq> TIE" using r by auto
  have e: "?e = pushed g i (run g i)" using i by (rule computeScores_entry)
  show "wager_at g i = (if pushTies (options g) then carryPerPlayer (run g i) else 0) + 1 +
                        (if blindWolf (options g) then 1 else 0)"
    using b by (simp add: wager_at_def wagerPerPlayer_def baseWagerPerPlayer_def isBlind_def)
  {
    fix q
    assume q: "partnerId ?h = Some q \<and> q \<noteq> [] \<and> q \<noteq> last ?o \<and> q \<in> set ?ids"
    then have qb: "q \<in> set bs" using os lw unfolding o by auto
    let ?rest = "filter (\<lambda>pid. pid \<noteq> q) bs"
    let ?ws = "if result ?h = Some WOLF then [w, q] else ?rest"
    let ?ls = "if result ?h = Some WOLF then ?rest else [w, q]"
    have s: "sides ?o ?h = Some (?ws, ?ls,
                if result ?h = Some WOLF then ''Wolf Pack wins'' else ''Little Piggies win'')"
      unfolding o using q lw by (intro sides_snoc_team [OF nl _ _ _ w]) simp_all
    have lr: "int (length ?rest) = int (length (players g) - 2)"
      using length_filter_neq [OF dbs qb] ol unfolding o by simp
    have dl: "\<And>p. p \<in> set ?ids \<Longrightarrow> deltaByPlayer ?e p = Some (share (int (wager_at g i)) ?ws ?ls p)"
      using step_effect(4) [OF d, of _ i "run g i"] delta_won [OF d r' s, of "run g i"]
      by (simp add: e wager_at_def)
    have wq: "w \<in> set ?ids" "q \<in> set ?ids" "w \<noteq> q" "w \<notin> set ?rest" "q \<notin> set ?rest"
      using os q lw w unfolding o by auto
    have dw: "deltaByPlayer ?e w = Some ((if result ?h = Some WOLF then 1 else - 1) *
                    (int (wager_at g i) * int (length (players g) - 2)))"
      using dl [OF wq(1)] wq lr by (simp add: share_def)
    have dq: "deltaByPlayer ?e q = Some ((if result ?h = Some WOLF then 1 else - 1) *
                    (int (wager_at g i) * int (length (players g) - 2)))"
      using dl [OF wq(2)] wq lr by (simp add: share_def)
    show "deltaByPlayer ?e q = deltaByPlayer ?e (last ?o)" using dw dq lw by simp
    show "deltaByPlayer ?e (last ?o) = Some ((if result ?h = Some WOLF then 1 else - 1) *
                    (int (wager_at g i) * int (length (players g) - 2)))"
      using dw lw by simp
    show "\<forall>p\<in>set ?ids. p \<noteq> q \<and> p \<noteq> last ?o \<longrightarrow>
               deltaByPlayer ?e p = Some ((if result ?h = Some WOLF then - 1 else 1) *
                       (int (wager_at g i) * 2))"
    proof (intro ballI impI)
      fix p assume p: "p \<in> set ?ids" "p \<noteq> q \<and> p \<noteq> last ?o"
      then have "p \<in> set ?rest" using os lw unfolding o by auto
      then show "deltaByPlayer ?e p = Some ((if result ?h = Some WOLF then - 1 else 1) *
                       (int (wager_at g i) * 2))"
        using dl [OF p(1)] p(2) lw by (simp add: share_def)
    qed
  }
  {
    assume m: "partnerId ?h = None \<or> partnerId ?h = Some [] \<or> partnerId ?h = Some (last ?o)"
    then have "partnerId ?h = None \<or> partnerId ?h = Some [] \<or> partnerId ?h = wolfId_of ?o"
      using wid lw by simp
    then have sd: "sides ?o ?h = None" using nl by (intro sides_invalid)
    have en: "?e = not_scored_entry i ?ids"
      using e pushed_invalid [OF r' sd] by simp
    show "status ?e = ''NOT_SCORED''" by (simp add: en not_scored_entry_fields)
    show "\<forall>p\<in>set ?ids. deltaByPlayer ?e p = Some 0"
      by (simp add: en not_scored_entry_fields)
  }
qed

text \<open>
  Blind Wolf enabled, one hole flagged blind but not Lone Wolf, partner \<open>A\<close>, the Wolf
  \<open>D\<close> wins: team play at wager 2.
\<close>

theorem blind_flag_keeps_team_play_witness:
  "distinct (map player_id (players blind_team_game)) \<and> players blind_team_game \<noteq> [] \<and>
   0 < holeCount blind_team_game \<and>
   result (hole_at (holes blind_team_game) 0) = Some WOLF \<and>
   blind (hole_at (holes blind_team_game) 0) \<and> \<not> loneWolf (hole_at (holes blind_team_game) 0) \<and>
   partnerId (hole_at (holes blind_team_game) 0) = Some ''A'' \<and>
   last (hole_order blind_team_game 0) = ''D'' \<and>
   wager_at blind_team_game 0 = 2 \<and>
   map (deltaByPlayer (perHole (computeScores blind_team_game) ! 0)) [''A'', ''B'', ''C'', ''D'']
     = [Some 4, Some (- 4), Some (- 4), Some 4]"
proof -
  let ?g = blind_team_game
  let ?e = "perHole (computeScores ?g) ! 0"
  note f = blind_team_game_facts
  have d: "distinct (map player_id (players ?g))" by (simp add: f(1))
  have ne: "players ?g \<noteq> []" by (simp add: blind_team_game_def abcd_def)
  have i: "0 < holeCount ?g" by (simp add: f)
  have r: "result (hole_at (holes ?g) 0) = Some WOLF" by (simp add: f)
  have b: "blind (hole_at (holes ?g) 0)" and nl: "\<not> loneWolf (hole_at (holes ?g) 0)"
    by (simp_all add: f)
  have p: "partnerId (hole_at (holes ?g) 0) = Some ''A''" by (simp add: f)
  have l: "last (hole_order ?g 0) = ''D''" by (simp add: f)
  have len: "length (players ?g) = 4" by (simp add: blind_team_game_def abcd_def)
  note t = blind_flag_keeps_team_play [OF d ne i disjI1 [OF r] b nl]
  have w: "wager_at ?g 0 = 2"
    using t by (simp add: blind_team_game_def)
  have q: "partnerId (hole_at (holes ?g) 0) = Some ''A'' \<and> ''A'' \<noteq> [] \<and>
           ''A'' \<noteq> last (hole_order ?g 0) \<and> ''A'' \<in> set (map player_id (players ?g))"
    by (simp add: f)
  from t q have
    x1: "deltaByPlayer ?e ''A'' = deltaByPlayer ?e (last (hole_order ?g 0))" and
    x2: "deltaByPlayer ?e (last (hole_order ?g 0)) =
           Some ((if result (hole_at (holes ?g) 0) = Some WOLF then 1 else - 1) *
                    (int (wager_at ?g 0) * int (length (players ?g) - 2)))" and
    x3: "\<forall>p\<in>set (map player_id (players ?g)). p \<noteq> ''A'' \<and> p \<noteq> last (hole_order ?g 0) \<longrightarrow>
           deltaByPlayer ?e p = Some ((if result (hole_at (holes ?g) 0) = Some WOLF then - 1 else 1) *
                       (int (wager_at ?g 0) * 2))"
    by blast+
  have dD: "deltaByPlayer ?e ''D'' = Some 4" using x2 by (simp add: l r w len)
  have dA: "deltaByPlayer ?e ''A'' = Some 4" using x1 dD by (simp add: l)
  have dB: "deltaByPlayer ?e ''B'' = Some (- 4)" using x3 by (simp add: l r w f(1))
  have dC: "deltaByPlayer ?e ''C'' = Some (- 4)" using x3 by (simp add: l r w f(1))
  have m: "map (deltaByPlayer ?e) [''A'', ''B'', ''C'', ''D''] = [Some 4, Some (- 4), Some (- 4), Some 4]"
    using dA dB dC dD by simp
  show ?thesis using d ne i r b nl p l w m by blast
qed

text \<open>
  C6, as stated, fails: the same hole scored as solo play without a partner gives
  \<open>D\<close> \<open>+6\<close> and \<open>A\<close> \<open>-2\<close>, the engine gives \<open>D\<close> and \<open>A\<close> \<open>+4\<close> each.
\<close>

theorem blind_team_hole_is_not_solo_counterexample:
  "blind (hole_at (holes blind_team_game) 0) \<and> \<not> loneWolf (hole_at (holes blind_team_game) 0) \<and>
   blind_solo_game = blind_team_game
       \<lparr>holes := [(hole_at (holes blind_team_game) 0)\<lparr>loneWolf := True, partnerId := None\<rparr>]\<rparr> \<and>
   map (delta_of (perHole (computeScores blind_team_game) ! 0)) [''A'', ''B'', ''C'', ''D'']
     = [4, - 4, - 4, 4] \<and>
   map (delta_of (perHole (computeScores blind_solo_game) ! 0)) [''A'', ''B'', ''C'', ''D'']
     = [- 2, - 2, - 2, 6] \<and>
   perHole (computeScores blind_team_game) \<noteq> perHole (computeScores blind_solo_game)"
proof -
  have a: "blind (hole_at (holes blind_team_game) 0)" "\<not> loneWolf (hole_at (holes blind_team_game) 0)"
    by (simp_all add: blind_team_game_facts)
  have b: "blind_solo_game = blind_team_game
       \<lparr>holes := [(hole_at (holes blind_team_game) 0)\<lparr>loneWolf := True, partnerId := None\<rparr>]\<rparr>"
    by (simp add: blind_team_game_facts(3)) (simp add: blind_solo_game_def blind_team_game_def)
  have t: "map (delta_of (perHole (computeScores blind_team_game) ! 0)) [''A'', ''B'', ''C'', ''D'']
     = [4, - 4, - 4, 4]"
    by (simp add: blind_team_game_deltas share_def)
  have s: "map (delta_of (perHole (computeScores blind_solo_game) ! 0)) [''A'', ''B'', ''C'', ''D'']
     = [- 2, - 2, - 2, 6]"
    by (simp add: blind_solo_game_deltas share_def)
  have "perHole (computeScores blind_team_game) \<noteq> perHole (computeScores blind_solo_game)"
  proof
    assume "perHole (computeScores blind_team_game) = perHole (computeScores blind_solo_game)"
    then have "map (delta_of (perHole (computeScores blind_team_game) ! 0)) [''A'', ''B'', ''C'', ''D'']
      = map (delta_of (perHole (computeScores blind_solo_game) ! 0)) [''A'', ''B'', ''C'', ''D'']"
      by simp
    then show False unfolding t s by simp
  qed
  then show ?thesis using a b t s by blast
qed

text \<open>
  C9. The pooled-pot engine and the all-pairs engine are different scoring rules: there is
  a game and a player for whom both return a number and the numbers differ, also after
  converting the newer points to the sixths of the older engine. In a two-against-two hole
  the pot pays each winner one point (6 sixths), the all-pairs transfer two points.
\<close>

theorem engines_disagree:
  "\<exists>g p a b. fst (computeScores_v1 g) p = Some (Num a) \<and> totals (computeScores g) p = Some (Num b) \<and>
             a \<noteq> b \<and> a \<noteq> POINTS_UNIT_v1 * b"
proof -
  have "fst (computeScores_v1 team_win_game) ''A'' = Some (Num 6) \<and>
        totals (computeScores team_win_game) ''A'' = Some (Num 2) \<and>
        (6::int) \<noteq> 2 \<and> (6::int) \<noteq> POINTS_UNIT_v1 * 2"
    using team_win_game_v1_net team_win_game_net by (simp add: POINTS_UNIT_v1_def)
  then show ?thesis by blast
qed

end
